theory Spec2Isabelle
  imports Main
begin

section \<open>Python values\<close>

text \<open>
  A Python \<open>str\<close> is a sequence of Unicode code points; it is modelled as the list of
  their numbers, so that surrogates and \<open>\uXXXX\<close> escapes keep their meaning.
  \<open>str_of\<close> writes an ASCII literal.
\<close>

type_synonym str = "nat list"

definition str_of :: "string \<Rightarrow> str" where
  "str_of s = map of_char s"

text \<open>
  The values \<open>json.loads\<close> builds: \<open>None\<close>, \<open>bool\<close>, \<open>int\<close>, \<open>float\<close>,
  \<open>str\<close>, \<open>list\<close> and \<open>dict\<close>. A float is kept as the literal it was read from.
  A \<open>dict\<close> is an association list in insertion order.
\<close>

datatype json =
    JNull
  | JBool bool
  | JInt int
  | JFloat str
  | JString str
  | JArray "json list"
  | JObject "(str \<times> json) list"

text \<open>The exceptions that the program names or that its operations raise.\<close>

datatype error =
    OutputParserException str
  | JSONDecodeError
  | ValueError
  | RecursionError
  | KeyError
  | TypeError
  | AttributeError
  | UnicodeEncodeError
  | OtherError

subsection \<open>Dictionaries\<close>

text \<open>\<open>d[k] = v\<close>: an existing key keeps its position, a new key goes last.\<close>

fun dict_set :: "'k \<Rightarrow> 'v \<Rightarrow> ('k \<times> 'v) list \<Rightarrow> ('k \<times> 'v) list" where
  "dict_set k v [] = [(k, v)]"
| "dict_set k v ((k', v') # d) =
     (if k' = k then (k, v) # d else (k', v') # dict_set k v d)"

text \<open>\<open>d.get(k, default)\<close>.\<close>

definition dict_get :: "('k \<times> 'v) list \<Rightarrow> 'k \<Rightarrow> 'v \<Rightarrow> 'v" where
  "dict_get d k dflt = (case map_of d k of None \<Rightarrow> dflt | Some v \<Rightarrow> v)"

text \<open>\<open>{**d1, **d2}\<close>: the items of \<open>d2\<close> are stored into a copy of \<open>d1\<close>, in order.\<close>

definition dict_merge :: "('k \<times> 'v) list \<Rightarrow> ('k \<times> 'v) list \<Rightarrow> ('k \<times> 'v) list" where
  "dict_merge d1 d2 = foldl (\<lambda>d (k, v). dict_set k v d) d1 d2"

definition dict_keys :: "('k \<times> 'v) list \<Rightarrow> 'k set" where
  "dict_keys d = fst ` set d"

section \<open>The JSON decoder \<open>json.loads\<close>\<close>

text \<open>
  The decoder of the standard library, with its default settings (strict strings, no
  hooks): the grammar it accepts, the value it builds and the exceptions it raises. A
  text outside the grammar is a \<open>JSONDecodeError\<close>. An integer literal of more
  than 4300 digits is a \<open>ValueError\<close> of the interpreter's conversion from text to
  \<open>int\<close>. Each array or object that is entered counts against the recursion the
  interpreter allows, and a \<open>RecursionError\<close> is raised when none is left; how much
  is left at a call is not fixed by the program, so the decoder takes it as \<open>depth\<close>.
\<close>

definition is_ws :: "nat \<Rightarrow> bool" where
  "is_ws c \<longleftrightarrow> c = 32 \<or> c = 9 \<or> c = 10 \<or> c = 13"

definition skip_ws :: "str \<Rightarrow> str" where
  "skip_ws cs = dropWhile is_ws cs"

definition is_digit :: "nat \<Rightarrow> bool" where
  "is_digit c \<longleftrightarrow> 48 \<le> c \<and> c \<le> 57"

definition starts_with :: "str \<Rightarrow> str \<Rightarrow> bool" where
  "starts_with p cs \<longleftrightarrow> take (length p) cs = p"

definition int_of_digits :: "str \<Rightarrow> int" where
  "int_of_digits ds = foldl (\<lambda>n d. 10 * n + int (d - 48)) 0 ds"

text \<open>The integer part \<open>-?(0|[1-9]\d*)\<close>: its sign, its digits and the rest.\<close>

definition match_int :: "str \<Rightarrow> (bool \<times> str \<times> str) option" where
  "match_int cs =
     (let neg = (cs \<noteq> [] \<and> hd cs = 45);
          r = (if neg then tl cs else cs)
      in case r of
           [] \<Rightarrow> None
         | d # r1 \<Rightarrow>
             if d = 48 then Some (neg, [d], r1)
             else if 49 \<le> d \<and> d \<le> 57
               then Some (neg, d # takeWhile is_digit r1, dropWhile is_digit r1)
             else None)"

text \<open>The optional fraction \<open>(\.\d+)?\<close>: what it matched and the rest.\<close>

definition match_frac :: "str \<Rightarrow> str \<times> str" where
  "match_frac cs =
     (case cs of
        [] \<Rightarrow> ([], cs)
      | c # r \<Rightarrow>
          if c = 46 \<and> takeWhile is_digit r \<noteq> []
            then (c # takeWhile is_digit r, dropWhile is_digit r)
          else ([], cs))"

text \<open>The optional exponent \<open>([eE][-+]?\d+)?\<close>.\<close>

definition match_exp :: "str \<Rightarrow> str \<times> str" where
  "match_exp cs =
     (case cs of
        [] \<Rightarrow> ([], cs)
      | c # r \<Rightarrow>
          if c = 101 \<or> c = 69 then
            (let sgn = (if r \<noteq> [] \<and> (hd r = 45 \<or> hd r = 43) then [hd r] else []);
                 r1 = drop (length sgn) r
             in if takeWhile is_digit r1 \<noteq> []
                  then (c # sgn @ takeWhile is_digit r1, dropWhile is_digit r1)
                else ([], cs))
          else ([], cs))"

text \<open>
  A number: an \<open>int\<close> when it has neither fraction nor exponent, else a \<open>float\<close>.
  The conversion to \<open>int\<close> refuses more than \<open>int_max_str_digits\<close> digits.
\<close>

definition int_max_str_digits :: nat where
  "int_max_str_digits = 4300"

definition match_number :: "str \<Rightarrow> error + json \<times> str" where
  "match_number cs =
     (case match_int cs of
        None \<Rightarrow> Inl JSONDecodeError
      | Some (neg, ds, r) \<Rightarrow>
          (let fr = match_frac r; ex = match_exp (snd fr)
           in if fst fr = [] \<and> fst ex = [] then
                (if int_max_str_digits < length ds then Inl ValueError
                 else Inr (JInt (if neg then - int_of_digits ds else int_of_digits ds), r))
              else Inr (JFloat ((if neg then [45] else []) @ ds @ fst fr @ fst ex), snd ex)))"

definition hex_val :: "nat \<Rightarrow> nat option" where
  "hex_val c =
     (if 48 \<le> c \<and> c \<le> 57 then Some (c - 48)
      else if 97 \<le> c \<and> c \<le> 102 then Some (c - 87)
      else if 65 \<le> c \<and> c \<le> 70 then Some (c - 55)
      else None)"

text \<open>The value of the four hexadecimal digits of a \<open>\uXXXX\<close> escape.\<close>

definition hex4 :: "str \<Rightarrow> nat option" where
  "hex4 cs =
     (case map hex_val (take 4 cs) of
        [Some a, Some b, Some c, Some d] \<Rightarrow> Some (((a * 16 + b) * 16 + c) * 16 + d)
      | _ \<Rightarrow> None)"

text \<open>The one-letter escapes.\<close>

definition backslash :: "nat \<Rightarrow> nat option" where
  "backslash c =
     (if c = 34 then Some 34
      else if c = 92 then Some 92
      else if c = 47 then Some 47
      else if c = 98 then Some 8
      else if c = 102 then Some 12
      else if c = 110 then Some 10
      else if c = 114 then Some 13
      else if c = 116 then Some 9
      else None)"

text \<open>
  The body of a string after its opening quote: the decoded text and what follows the
  closing quote. A high surrogate escape followed by a low surrogate escape is one
  code point; a control character is refused.
\<close>

fun scanstring :: "str \<Rightarrow> str \<Rightarrow> (str \<times> str) option" where
  "scanstring acc [] = None"
| "scanstring acc (c # cs) =
     (if c = 34 then Some (acc, cs)
      else if c = 92 then
        (case cs of
           [] \<Rightarrow> None
         | e # r \<Rightarrow>
             if e = 117 then
               (case hex4 r of
                  None \<Rightarrow> None
                | Some u \<Rightarrow>
                    if 55296 \<le> u \<and> u \<le> 56319 \<and> take 2 (drop 4 r) = [92, 117] then
                      (case hex4 (drop 6 r) of
                         None \<Rightarrow> None
                       | Some u2 \<Rightarrow>
                           if 56320 \<le> u2 \<and> u2 \<le> 57343
                             then scanstring
                                    (acc @ [65536 + (u - 55296) * 1024 + (u2 - 56320)])
                                    (drop 10 r)
                           else scanstring (acc @ [u]) (drop 4 r))
                    else scanstring (acc @ [u]) (drop 4 r))
             else
               (case backslash e of
                  None \<Rightarrow> None
                | Some ch \<Rightarrow> scanstring (acc @ [ch]) r))
      else if c < 32 then None
      else scanstring (acc @ [c]) cs)"

lemma length_skip_ws: "length (skip_ws cs) \<le> length cs"
  by (simp add: skip_ws_def length_dropWhile_le)

lemma scanstring_shorter: "scanstring acc cs = Some (s, r) \<Longrightarrow> length r < length cs"
proof (induction acc cs rule: scanstring.induct)
  case (1 acc)
  then show ?case by simp
next
  case (2 acc c cs)
  show ?case
  proof (cases "c = 34")
    case True
    with "2.prems" show ?thesis by simp
  next
    case quote: False
    show ?thesis
    proof (cases "c = 92")
      case False
      with quote "2.prems" have "c \<ge> 32" and "scanstring (acc @ [c]) cs = Some (s, r)"
        by (auto split: if_splits)
      with "2.IH"(5) [OF quote False] show ?thesis by fastforce
    next
      case bs: True
      show ?thesis
      proof (cases cs)
        case Nil
        with bs quote "2.prems" show ?thesis by simp
      next
        case (Cons e r0)
        show ?thesis
        proof (cases "e = 117")
          case False
          with Cons bs quote "2.prems" obtain ch where
            ch: "backslash e = Some ch" "scanstring (acc @ [ch]) r0 = Some (s, r)"
            by (auto split: option.splits)
          from "2.IH"(4) [OF quote bs Cons False ch(1)] ch(2) Cons show ?thesis by simp
        next
          case u: True
          with Cons bs quote "2.prems" obtain v where v: "hex4 r0 = Some v"
            by (auto split: option.splits)
          show ?thesis
          proof (cases "55296 \<le> v \<and> v \<le> 56319 \<and> take 2 (drop 4 r0) = [92, 117]")
            case False
            with v u Cons bs quote "2.prems" have "scanstring (acc @ [v]) (drop 4 r0) = Some (s, r)"
              by (simp split: if_splits)
            with "2.IH"(3) [OF quote bs Cons u v False] Cons show ?thesis by simp
          next
            case hi: True
            with v u Cons bs quote "2.prems" obtain v2 where v2: "hex4 (drop 6 r0) = Some v2"
              by (auto split: option.splits)
            show ?thesis
            proof (cases "56320 \<le> v2 \<and> v2 \<le> 57343")
              case True
              with hi v v2 u Cons bs quote "2.prems"
              have "scanstring (acc @ [65536 + (v - 55296) * 1024 + (v2 - 56320)]) (drop 10 r0) = Some (s, r)"
                by simp
              with "2.IH"(1) [OF quote bs Cons u v hi v2 True] Cons show ?thesis by simp
            next
              case False
              with hi v v2 u Cons bs quote "2.prems"
              have "scanstring (acc @ [v]) (drop 4 r0) = Some (s, r)"
                by simp
              with "2.IH"(2) [OF quote bs Cons u v hi v2 False] Cons show ?thesis by simp
            qed
          qed
        qed
      qed
    qed
  qed
qed

text \<open>
  A value that is neither a string nor an array nor an object: one of the constants, or
  else a number.
\<close>

definition scan_constant :: "str \<Rightarrow> error + json \<times> str" where
  "scan_constant cs =
     (if starts_with (str_of ''null'') cs then Inr (JNull, drop 4 cs)
      else if starts_with (str_of ''true'') cs then Inr (JBool True, drop 4 cs)
      else if starts_with (str_of ''false'') cs then Inr (JBool False, drop 5 cs)
      else if starts_with (str_of ''NaN'') cs then Inr (JFloat (str_of ''NaN''), drop 3 cs)
      else if starts_with (str_of ''Infinity'') cs
        then Inr (JFloat (str_of ''Infinity''), drop 8 cs)
      else if starts_with (str_of ''-Infinity'') cs
        then Inr (JFloat (str_of ''-Infinity''), drop 9 cs)
      else match_number cs)"

text \<open>
  One JSON value at the front of the input, and the rest of the input. \<open>parse_array\<close>
  and \<open>parse_object\<close> run the loops over the elements of an array and the members of an
  object, after the opening bracket and white space; a repeated key keeps its first
  position and its last value, as \<open>dict\<close> does. The test \<open>length r < length cs\<close> on
  what a nested value left over holds whenever the value was read
  (\<open>parse_value_shorter\<close>); it is there for the termination proof.
\<close>

function parse_value :: "nat \<Rightarrow> str \<Rightarrow> error + json \<times> str"
  and parse_array :: "nat \<Rightarrow> json list \<Rightarrow> str \<Rightarrow> error + json \<times> str"
  and parse_object :: "nat \<Rightarrow> (str \<times> json) list \<Rightarrow> str \<Rightarrow> error + json \<times> str"
where
  "parse_value depth [] = Inl JSONDecodeError"
| "parse_value depth (c # r) =
     (if c = 34 then
        (case scanstring [] r of
           None \<Rightarrow> Inl JSONDecodeError
         | Some (s, r1) \<Rightarrow> Inr (JString s, r1))
      else if c = 123 then
        (if depth = 0 then Inl RecursionError
         else if starts_with [125] (skip_ws r) then Inr (JObject [], tl (skip_ws r))
         else parse_object (depth - 1) [] (skip_ws r))
      else if c = 91 then
        (if depth = 0 then Inl RecursionError
         else if starts_with [93] (skip_ws r) then Inr (JArray [], tl (skip_ws r))
         else parse_array (depth - 1) [] (skip_ws r))
      else scan_constant (c # r))"
| "parse_array depth acc cs =
     (case parse_value depth cs of
        Inl e \<Rightarrow> Inl e
      | Inr (v, r) \<Rightarrow>
          if length r < length cs then
            (case skip_ws r of
               [] \<Rightarrow> Inl JSONDecodeError
             | d # r1 \<Rightarrow>
                 if d = 93 then Inr (JArray (acc @ [v]), r1)
                 else if d = 44 then parse_array depth (acc @ [v]) (skip_ws r1)
                 else Inl JSONDecodeError)
          else Inl JSONDecodeError)"
| "parse_object depth acc cs =
     (case cs of
        [] \<Rightarrow> Inl JSONDecodeError
      | q # r0 \<Rightarrow>
          if q \<noteq> 34 then Inl JSONDecodeError
          else
            (case scanstring [] r0 of
               None \<Rightarrow> Inl JSONDecodeError
             | Some (key, r1) \<Rightarrow>
                 (case skip_ws r1 of
                    [] \<Rightarrow> Inl JSONDecodeError
                  | col # r2 \<Rightarrow>
                      if col \<noteq> 58 then Inl JSONDecodeError
                      else
                        (case parse_value depth (skip_ws r2) of
                           Inl e \<Rightarrow> Inl e
                         | Inr (v, r3) \<Rightarrow>
                             if length r3 < length cs then
                               (case skip_ws r3 of
                                  [] \<Rightarrow> Inl JSONDecodeError
                                | d # r4 \<Rightarrow>
                                    if d = 125 then Inr (JObject (dict_set key v acc), r4)
                                    else if d = 44
                                      then parse_object depth (dict_set key v acc) (skip_ws r4)
                                    else Inl JSONDecodeError)
                             else Inl JSONDecodeError))))"
  by pat_completeness auto

termination
proof (relation "measure (\<lambda>x. case x of
          Inl (depth, cs) \<Rightarrow> 2 * length cs
        | Inr (Inl (depth, acc, cs)) \<Rightarrow> 2 * length cs + 1
        | Inr (Inr (depth, acc, cs)) \<Rightarrow> 2 * length cs + 1)", goal_cases)
  case 1
  show ?case by simp
next
  case (2 depth c r)
  have "length (skip_ws r) \<le> length r" by (rule length_skip_ws)
  then show ?case by simp
next
  case (3 depth c r)
  have "length (skip_ws r) \<le> length r" by (rule length_skip_ws)
  then show ?case by simp
next
  case (4 depth acc cs)
  show ?case by simp
next
  case (5 depth acc cs x v r d r1)
  have "length (skip_ws r1) \<le> length r1" by (rule length_skip_ws)
  moreover have "length (skip_ws r) \<le> length r" by (rule length_skip_ws)
  moreover from 5 have "length (skip_ws r) = Suc (length r1)" by simp
  ultimately show ?case using 5 by simp
next
  case (6 depth acc cs q r0 x key r1 col r2)
  have "length (skip_ws r2) \<le> length r2" by (rule length_skip_ws)
  moreover have "length (skip_ws r1) \<le> length r1" by (rule length_skip_ws)
  moreover from 6 have "length (skip_ws r1) = Suc (length r2)" by simp
  moreover from 6 have "length r1 < length r0" by (auto dest: scanstring_shorter)
  ultimately show ?case using 6 by simp
next
  case (7 depth acc cs q r0 x key r1 col r2 y v r3 d r4)
  have "length (skip_ws r4) \<le> length r4" by (rule length_skip_ws)
  moreover have "length (skip_ws r3) \<le> length r3" by (rule length_skip_ws)
  moreover from 7 have "length (skip_ws r3) = Suc (length r4)" by simp
  ultimately show ?case using 7 by simp
qed

declare parse_value.simps [simp del] parse_array.simps [simp del] parse_object.simps [simp del]

text \<open>
  \<open>json.loads\<close>: a byte order mark is refused, white space may surround the value,
  nothing else may follow it.
\<close>

definition json_loads :: "nat \<Rightarrow> str \<Rightarrow> error + json" where
  "json_loads depth s =
     (if starts_with [65279] s then Inl JSONDecodeError
      else
        (case parse_value depth (skip_ws s) of
           Inl e \<Rightarrow> Inl e
         | Inr (v, r) \<Rightarrow> if skip_ws r = [] then Inr v else Inl JSONDecodeError))"

text \<open>
  The exceptions of the decoder and what they say of the text: only a text of more than
  4300 characters holds an integer that is too long, and only a text with more
  characters than \<open>depth\<close> nests deeper than \<open>depth\<close>.
\<close>

definition decoder_error :: "error \<Rightarrow> nat \<Rightarrow> str \<Rightarrow> bool" where
  "decoder_error e depth cs \<longleftrightarrow>
     e = JSONDecodeError \<or>
     (e = ValueError \<and> int_max_str_digits < length cs) \<or>
     (e = RecursionError \<and> depth < length cs)"

section \<open>The program: \<open>preprocess.py\<close>\<close>

subsection \<open>What the program takes from outside\<close>

text \<open>
  Three things are not fixed by the text of the program, and every operation that needs
  one takes them in an \<open>env\<close>:
  \<^item> \<open>llm\<close>, the model client of \<open>llm_helper.py\<close> behind a chain
    \<open>PromptTemplate | llm\<close>: from the formatted prompt to the \<open>content\<close> of the
    response, or an exception;
  \<^item> \<open>set_list\<close>, the order in which Python iterates over a set: from the elements
    in the order they were added to the list that \<open>list(s)\<close> or a loop over \<open>s\<close>
    sees;
  \<^item> \<open>recursion_left\<close>, the number of nested arrays and objects the interpreter lets
    the JSON decoder enter.

  What the program prints is not part of the model.
\<close>

record env =
  llm :: "str \<Rightarrow> error + str"
  set_list :: "json list \<Rightarrow> json list"
  recursion_left :: nat

text \<open>
  Whatever the order of a set, the list holds only elements that were added; when all of
  them are strings it holds each exactly once. (Equality of numbers across \<open>bool\<close>,
  \<open>int\<close> and \<open>float\<close> is left open.)
\<close>

fun is_str :: "json \<Rightarrow> bool" where
  "is_str (JString s) = True"
| "is_str _ = False"

definition set_order :: "(json list \<Rightarrow> json list) \<Rightarrow> bool" where
  "set_order iter \<longleftrightarrow>
     (\<forall>xs. set (iter xs) \<subseteq> set xs) \<and>
     (\<forall>xs. list_all is_str xs \<longrightarrow> distinct (iter xs) \<and> set (iter xs) = set xs)"

text \<open>A \<open>for\<close> loop over a value: the elements of a list, the keys of a dict, the
  characters of a string; anything else is not iterable.\<close>

fun py_iter :: "json \<Rightarrow> error + json list" where
  "py_iter (JArray xs) = Inr xs"
| "py_iter (JObject d) = Inr (map (\<lambda>kv. JString (fst kv)) d)"
| "py_iter (JString s) = Inr (map (\<lambda>c. JString [c]) s)"
| "py_iter v = Inl TypeError"

text \<open>Lists and dicts cannot be members of a set or keys of a dict.\<close>

fun hashable :: "json \<Rightarrow> bool" where
  "hashable (JArray xs) = False"
| "hashable (JObject d) = False"
| "hashable v = True"

fun is_dict :: "json \<Rightarrow> bool" where
  "is_dict (JObject d) = True"
| "is_dict v = False"

text \<open>A dict as Python holds it: no key occurs twice.\<close>

definition is_record :: "json \<Rightarrow> bool" where
  "is_record v \<longleftrightarrow> (\<exists>m. v = JObject m \<and> distinct (map fst m))"

subsection \<open>\<open>clean_text\<close>\<close>

text \<open>\<open>text.encode("utf-8", "ignore").decode("utf-8")\<close>: the surrogate code points
  are the ones UTF-8 cannot encode, and they are dropped.\<close>

definition clean_text :: "str \<Rightarrow> str" where
  "clean_text text = filter (\<lambda>c. \<not> (55296 \<le> c \<and> c \<le> 57343)) text"

subsection \<open>\<open>extract_json\<close>\<close>

text \<open>
  \<open>re.search(r"\{.*\}", text, re.DOTALL)\<close>: the match starts at the first \<open>{\<close>
  and, \<open>.*\<close> being greedy and matching every character, ends at the last \<open>}\<close> after
  it; there is no match when either is missing.
\<close>

definition re_search :: "str \<Rightarrow> str option" where
  "re_search text =
     (let from_open = dropWhile (\<lambda>c. c \<noteq> 123) text
      in if from_open = [] then None
         else
           (let body = rev (dropWhile (\<lambda>c. c \<noteq> 125) (rev (tl from_open)))
            in if body = [] then None else Some (123 # body)))"

text \<open>
  The handler catches \<open>json.JSONDecodeError\<close> alone; any other exception of
  \<open>json.loads\<close> leaves the function.
\<close>

definition extract_json :: "nat \<Rightarrow> str \<Rightarrow> error + json" where
  "extract_json depth text =
     (case re_search text of
        Some m \<Rightarrow>
          (case json_loads depth m of
             Inr v \<Rightarrow> Inr v
           | Inl JSONDecodeError \<Rightarrow> Inr (JObject [])
           | Inl e \<Rightarrow> Inl e)
      | None \<Rightarrow> Inr (JObject []))"

subsection \<open>\<open>get_unified_tags\<close>\<close>

text \<open>Lines of text joined with line feeds, as a triple-quoted literal holds them.\<close>

fun lines_text :: "str list \<Rightarrow> str" where
  "lines_text [] = []"
| "lines_text [l] = l"
| "lines_text (l # ls) = l @ [10] @ lines_text ls"

text \<open>The prompt of the unification chain, \<open>{tags}\<close> filled in.\<close>

definition unify_prompt :: "str \<Rightarrow> str" where
  \<open>unify_prompt tags = lines_text
     [str_of ''I will give you a list of tags. You need to unify tags with the following requirements,'',
      str_of ''    1. Tags are unified and merged to create a shorter list. '',
      str_of ''       Example 1: "Jobseekers", "Job Hunting" can be all merged into a single tag "Job Search". '',
      str_of ''       Example 2: "Motivation", "Inspiration", "Drive" can be mapped to "Motivation"'',
      str_of ''       Example 3: "Personal Growth", "Personal Development", "Self Improvement" can be mapped to "Self Improvement"'',
      str_of ''       Example 4: "Scam Alert", "Job Scam" etc. can be mapped to "Scams"'',
      str_of ''    2. Each tag should follow the title case convention. Example: "Motivation", "Job Search"'',
      str_of ''    3. **Only output a valid JSON object**. Do not include any extra text or explanation.'',
      str_of ''    4. Output should have a mapping of the original tag and the unified tag. '',
      [],
      str_of ''    Here is the list of tags: '',
      str_of ''    '' @ tags,
      str_of ''    '']\<close>

text \<open>
  The loop \<open>unique_tags.update(post['tags'])\<close>: \<open>seen\<close> holds what was added so
  far. A post that is no dict cannot be subscripted by a string, a dict without the key
  raises \<open>KeyError\<close>, and \<open>update\<close> needs an iterable of hashable values.
\<close>

fun collect_tags :: "json list \<Rightarrow> json list \<Rightarrow> error + json list" where
  "collect_tags seen [] = Inr seen"
| "collect_tags seen (post # posts) =
     (case post of
        JObject d \<Rightarrow>
          (case map_of d (str_of ''tags'') of
             None \<Rightarrow> Inl KeyError
           | Some tags \<Rightarrow>
               (case py_iter tags of
                  Inl e \<Rightarrow> Inl e
                | Inr ts \<Rightarrow>
                    if list_all hashable ts then collect_tags (seen @ ts) posts
                    else Inl TypeError))
      | _ \<Rightarrow> Inl TypeError)"

text \<open>\<open>','.join(unique_tags)\<close>: every item has to be a string.\<close>

fun str_val :: "json \<Rightarrow> str" where
  "str_val (JString s) = s"
| "str_val v = []"

fun comma_join :: "str list \<Rightarrow> str" where
  "comma_join [] = []"
| "comma_join [s] = s"
| "comma_join (s # ss) = s @ [44] @ comma_join ss"

definition join_tags :: "json list \<Rightarrow> error + str" where
  "join_tags ts =
     (if list_all is_str ts then Inr (comma_join (map str_val ts)) else Inl TypeError)"

text \<open>
  The model is called outside the \<open>try\<close>; the \<open>try\<close> block holds the call of
  \<open>extract_json\<close> alone, and its handler turns an \<open>OutputParserException\<close> into
  the one with the message of the program.
\<close>

definition get_unified_tags :: "env \<Rightarrow> json list \<Rightarrow> error + json" where
  "get_unified_tags env posts_with_metadata =
     (case collect_tags [] posts_with_metadata of
        Inl e \<Rightarrow> Inl e
      | Inr unique_tags \<Rightarrow>
          (case join_tags (set_list env unique_tags) of
             Inl e \<Rightarrow> Inl e
           | Inr unique_tags_list \<Rightarrow>
               (case llm env (unify_prompt unique_tags_list) of
                  Inl e \<Rightarrow> Inl e
                | Inr response \<Rightarrow>
                    (case extract_json (recursion_left env) response of
                       Inl (OutputParserException msg) \<Rightarrow>
                         Inl (OutputParserException
                                (str_of ''Context too big. Unable to parse jobs.''))
                     | extracted_json \<Rightarrow> extracted_json))))"

subsection \<open>\<open>extract_metadata\<close>\<close>

text \<open>\<open>str.strip()\<close> removes the white space of Unicode at both ends.\<close>

definition is_space :: "nat \<Rightarrow> bool" where
  "is_space c \<longleftrightarrow>
     (9 \<le> c \<and> c \<le> 13) \<or> (28 \<le> c \<and> c \<le> 32) \<or> c = 133 \<or> c = 160 \<or> c = 5760 \<or>
     (8192 \<le> c \<and> c \<le> 8202) \<or> c = 8232 \<or> c = 8233 \<or> c = 8239 \<or> c = 8287 \<or> c = 12288"

definition strip :: "str \<Rightarrow> str" where
  "strip s = rev (dropWhile is_space (rev (dropWhile is_space s)))"

text \<open>The prompt of the extraction chain, \<open>{post}\<close> filled in.\<close>

definition metadata_prompt :: "str \<Rightarrow> str" where
  \<open>metadata_prompt post = lines_text
     [[],
      str_of ''        You are given a LinkedIn post. Extract number of lines, language, and tags.'',
      str_of ''        1. Respond with **ONLY** a valid JSON object. No extra text, no preamble.'',
      str_of ''        2. JSON keys: line_count (int), language (English/Hinglish), tags (array of max 2).'',
      [],
      str_of ''        Post: '' @ post,
      str_of ''    '']\<close>

definition fallback_metadata :: json where
  "fallback_metadata =
     JObject [(str_of ''line_count'', JInt 0),
              (str_of ''language'', JString (str_of ''Unknown'')),
              (str_of ''tags'', JArray [])]"

text \<open>
  The \<open>try\<close> block calls the model and \<open>extract_json\<close>; the handler catches
  \<open>OutputParserException\<close> and \<open>JSONDecodeError\<close> and lets any other exception
  through.
\<close>

definition extract_metadata :: "env \<Rightarrow> str \<Rightarrow> error + json" where
  "extract_metadata env post =
     (case
        (case llm env (metadata_prompt (clean_text post)) of
           Inl e \<Rightarrow> Inl e
         | Inr response \<Rightarrow>
             (case extract_json (recursion_left env) (strip response) of
                Inl e \<Rightarrow> Inl e
              | Inr res \<Rightarrow> if is_dict res then Inr res else Inr fallback_metadata))
      of
        Inl (OutputParserException msg) \<Rightarrow> Inr fallback_metadata
      | Inl JSONDecodeError \<Rightarrow> Inr fallback_metadata
      | returned \<Rightarrow> returned)"

subsection \<open>\<open>process_posts\<close>\<close>

text \<open>
  The body of the first loop. \<open>post.get\<close> needs a dict and \<open>clean_text\<close> a string
  (\<open>AttributeError\<close> otherwise); the cleaned text is stored back, the metadata is
  merged over the record when it is a dict, and the \<open>tags\<close> key is set to what it
  holds, or to the empty list.
\<close>

definition enrich_post :: "env \<Rightarrow> json \<Rightarrow> error + json" where
  "enrich_post env post =
     (case post of
        JObject d \<Rightarrow>
          (case dict_get d (str_of ''text'') (JString []) of
             JString text \<Rightarrow>
               (let post1 = dict_set (str_of ''text'') (JString (clean_text text)) d
                in case extract_metadata env (clean_text text) of
                     Inl e \<Rightarrow> Inl e
                   | Inr metadata \<Rightarrow>
                       (let post_with_metadata =
                              (case metadata of
                                 JObject md \<Rightarrow> dict_merge post1 md
                               | _ \<Rightarrow> post1)
                        in Inr (JObject
                                  (dict_set (str_of ''tags'')
                                     (dict_get post_with_metadata (str_of ''tags'') (JArray []))
                                     post_with_metadata))))
           | _ \<Rightarrow> Inl AttributeError)
      | _ \<Rightarrow> Inl AttributeError)"

fun enrich_posts :: "env \<Rightarrow> json list \<Rightarrow> error + json list" where
  "enrich_posts env [] = Inr []"
| "enrich_posts env (post # posts) =
     (case enrich_post env post of
        Inl e \<Rightarrow> Inl e
      | Inr p \<Rightarrow>
          (case enrich_posts env posts of
             Inl e \<Rightarrow> Inl e
           | Inr ps \<Rightarrow> Inr (p # ps)))"

text \<open>
  \<open>unified_tags.get(tag, tag)\<close>: the keys of a decoded object are strings, so only a
  string can be found; a tag that is not hashable cannot be looked up.
\<close>

definition unified_get :: "json \<Rightarrow> json \<Rightarrow> error + json" where
  "unified_get unified_tags tag =
     (case unified_tags of
        JObject m \<Rightarrow>
          if hashable tag
            then Inr (case tag of JString t \<Rightarrow> dict_get m t tag | _ \<Rightarrow> tag)
          else Inl TypeError
      | _ \<Rightarrow> Inl AttributeError)"

text \<open>The set comprehension, tag by tag: the values in the order they are added.\<close>

fun new_tags :: "json \<Rightarrow> json list \<Rightarrow> error + json list" where
  "new_tags unified_tags [] = Inr []"
| "new_tags unified_tags (tag # tags) =
     (case unified_get unified_tags tag of
        Inl e \<Rightarrow> Inl e
      | Inr v \<Rightarrow>
          if hashable v then
            (case new_tags unified_tags tags of
               Inl e \<Rightarrow> Inl e
             | Inr vs \<Rightarrow> Inr (v # vs))
          else Inl TypeError)"

text \<open>The body of the second loop: \<open>post['tags'] = list(new_tags)\<close>.\<close>

definition retag_post :: "env \<Rightarrow> json \<Rightarrow> json \<Rightarrow> error + json" where
  "retag_post env unified_tags post =
     (case post of
        JObject d \<Rightarrow>
          (case map_of d (str_of ''tags'') of
             None \<Rightarrow> Inl KeyError
           | Some current_tags \<Rightarrow>
               (case py_iter current_tags of
                  Inl e \<Rightarrow> Inl e
                | Inr ts \<Rightarrow>
                    (case new_tags unified_tags ts of
                       Inl e \<Rightarrow> Inl e
                     | Inr vs \<Rightarrow> Inr (JObject (dict_set (str_of ''tags'') (JArray (set_list env vs)) d)))))
      | _ \<Rightarrow> Inl TypeError)"

fun retag_posts :: "env \<Rightarrow> json \<Rightarrow> json list \<Rightarrow> error + json list" where
  "retag_posts env unified_tags [] = Inr []"
| "retag_posts env unified_tags (post # posts) =
     (case retag_post env unified_tags post of
        Inl e \<Rightarrow> Inl e
      | Inr p \<Rightarrow>
          (case retag_posts env unified_tags posts of
             Inl e \<Rightarrow> Inl e
           | Inr ps \<Rightarrow> Inr (p # ps)))"

text \<open>
  \<open>json.dump(enriched_posts, outfile, indent=4, ensure_ascii=False)\<close> into a file
  opened with \<open>encoding="utf-8"\<close>: every string is written as it is, and a surrogate
  code point in a key or in a value cannot be encoded. The layout of the text that is
  written is not modelled; the result is the list it was written from.
\<close>

fun encodable :: "json \<Rightarrow> bool" where
  "encodable (JString s) = (clean_text s = s)"
| "encodable (JArray xs) = list_all encodable xs"
| "encodable (JObject d) = list_all (\<lambda>kv. clean_text (fst kv) = fst kv \<and> encodable (snd kv)) d"
| "encodable v = True"

definition json_dump :: "json list \<Rightarrow> error + json list" where
  "json_dump obj = (if list_all encodable obj then Inr obj else Inl UnicodeEncodeError)"

text \<open>
  The whole run, from the text of the input file to the list that is written out:
  \<open>json.load\<close>, the first loop, the unification, the second loop, \<open>json.dump\<close>.
\<close>

definition process_posts :: "env \<Rightarrow> str \<Rightarrow> error + json list" where
  "process_posts env raw_file =
     (case json_loads (recursion_left env) raw_file of
        Inl e \<Rightarrow> Inl e
      | Inr loaded \<Rightarrow>
          (case py_iter loaded of
             Inl e \<Rightarrow> Inl e
           | Inr posts \<Rightarrow>
               (case enrich_posts env posts of
                  Inl e \<Rightarrow> Inl e
                | Inr enriched_posts \<Rightarrow>
                    (case get_unified_tags env enriched_posts of
                       Inl e \<Rightarrow> Inl e
                     | Inr unified_tags \<Rightarrow>
                         (case retag_posts env unified_tags enriched_posts of
                            Inl e \<Rightarrow> Inl e
                          | Inr written \<Rightarrow> json_dump written)))))"

section \<open>Properties\<close>

subsection \<open>Dictionaries\<close>

lemma map_of_dict_set: "map_of (dict_set k v d) = (map_of d)(k \<mapsto> v)"
  by (induction d) (auto simp: fun_eq_iff)

lemma dict_keys_dom: "dict_keys d = dom (map_of d)"
  by (simp add: dict_keys_def dom_map_of_conv_image_fst)

lemma dict_keys_dict_set: "dict_keys (dict_set k v d) = insert k (dict_keys d)"
  by (simp add: dict_keys_dom map_of_dict_set)

lemma map_of_dict_merge:
  "map_of (dict_merge d1 d2) = map_of d1 ++ map_of (rev d2)"
  unfolding dict_merge_def
proof (induction d2 arbitrary: d1)
  case Nil
  show ?case by simp
next
  case (Cons kv d2)
  obtain k v where kv: "kv = (k, v)" by (cases kv)
  have "map_of (foldl (\<lambda>d (k, v). dict_set k v d) d1 (kv # d2)) =
        map_of (dict_set k v d1) ++ map_of (rev d2)"
    using Cons.IH [of "dict_set k v d1"] by (simp add: kv)
  also have "\<dots> = map_of d1 ++ map_of (rev (kv # d2))"
    by (simp add: map_of_dict_set kv fun_eq_iff map_add_def split: option.splits)
  finally show ?case .
qed

lemma map_of_rev_distinct: "distinct (map fst d) \<Longrightarrow> map_of (rev d) = map_of d"
proof -
  assume d: "distinct (map fst d)"
  then have "distinct (map fst (rev d))"
    by (metis distinct_rev rev_map)
  with d show ?thesis
    using map_of_inject_set [of "rev d" d] by simp
qed

lemma distinct_dict_set: "distinct (map fst d) \<Longrightarrow> distinct (map fst (dict_set k v d))"
proof (induction d)
  case Nil
  show ?case by simp
next
  case (Cons kv d)
  have "fst ` set (dict_set k v d) = insert k (fst ` set d)"
    using dict_keys_dict_set [of k v d] by (simp add: dict_keys_def)
  with Cons show ?case
    by (cases kv) auto
qed

subsection \<open>The match of the regular expression\<close>

lemma re_search_Some:
  assumes "re_search s = Some m"
  shows "\<exists>pre body post. s = pre @ m @ post \<and> m = 123 # body @ [125]
           \<and> 123 \<notin> set pre \<and> 125 \<notin> set post"
proof -
  define pre where "pre = takeWhile (\<lambda>c. c \<noteq> 123) s"
  define from_open where "from_open = dropWhile (\<lambda>c. c \<noteq> 123) s"
  define after where "after = tl from_open"
  define post where "post = rev (takeWhile (\<lambda>c. c \<noteq> 125) (rev after))"
  define upto where "upto = rev (dropWhile (\<lambda>c. c \<noteq> 125) (rev after))"
  from assms have ne: "from_open \<noteq> []" and upto: "upto \<noteq> []" and m: "m = 123 # upto"
    by (auto simp: re_search_def Let_def from_open_def upto_def after_def split: if_splits)
  have split_text: "s = pre @ from_open"
    by (simp add: pre_def from_open_def)
  from ne have "hd from_open = 123"
    unfolding from_open_def using hd_dropWhile [of "\<lambda>c. c \<noteq> 123" s] by simp
  with ne have fo: "from_open = 123 # after"
    by (cases from_open) (simp_all add: after_def)
  have after: "after = upto @ post"
    unfolding upto_def post_def
    by (metis rev_append rev_rev_ident takeWhile_dropWhile_id)
  from upto have dne: "dropWhile (\<lambda>c. c \<noteq> 125) (rev after) \<noteq> []"
    by (simp add: upto_def)
  then have "hd (dropWhile (\<lambda>c. c \<noteq> 125) (rev after)) = 125"
    using hd_dropWhile [of "\<lambda>c. c \<noteq> 125" "rev after"] by simp
  with dne have "last upto = 125"
    by (simp add: upto_def last_rev)
  with upto obtain body where body: "upto = body @ [125]"
    by (metis append_butlast_last_id)
  have "123 \<notin> set pre"
    unfolding pre_def by (auto dest: set_takeWhileD)
  moreover have "125 \<notin> set post"
    unfolding post_def by (auto dest: set_takeWhileD)
  ultimately show ?thesis
    using split_text fo after body m by auto
qed

lemma re_search_span:
  assumes "123 \<notin> set pre" and "125 \<notin> set post"
  shows "re_search (pre @ 123 # body @ [125] @ post) = Some (123 # body @ [125])"
proof -
  have a: "dropWhile (\<lambda>c. c \<noteq> 123) (pre @ 123 # body @ 125 # post) = 123 # body @ 125 # post"
    using assms(1) by (subst dropWhile_append2) auto
  have b: "dropWhile (\<lambda>c. c \<noteq> 125) (rev post @ 125 # rev body) = 125 # rev body"
    using assms(2) by (subst dropWhile_append2) auto
  show ?thesis
    by (simp add: re_search_def Let_def a b)
qed

subsection \<open>What the decoder returns for a text that starts with a brace\<close>

lemma parse_object_Inr:
  assumes "parse_object depth acc cs = Inr (v, r)"
  obtains (close) r0 key r1 r2 w r3 where
      "cs = 34 # r0" "scanstring [] r0 = Some (key, r1)" "skip_ws r1 = 58 # r2"
      "parse_value depth (skip_ws r2) = Inr (w, r3)" "length r3 < length cs"
      "skip_ws r3 = 125 # r" "v = JObject (dict_set key w acc)"
  | (more) r0 key r1 r2 w r3 r4 where
      "cs = 34 # r0" "scanstring [] r0 = Some (key, r1)" "skip_ws r1 = 58 # r2"
      "parse_value depth (skip_ws r2) = Inr (w, r3)" "length r3 < length cs"
      "skip_ws r3 = 44 # r4"
      "parse_object depth (dict_set key w acc) (skip_ws r4) = Inr (v, r)"
  using assms
  by (subst (asm) parse_object.simps)
     (auto split: list.splits if_splits option.splits sum.splits prod.splits)

lemma parse_object_is_record:
  "parse_object depth acc cs = Inr (v, r) \<Longrightarrow> distinct (map fst acc) \<Longrightarrow> is_record v"
proof (induction "length cs" arbitrary: acc cs rule: less_induct)
  case less
  from less.prems(1) show ?case
  proof (cases rule: parse_object_Inr)
    case (close r0 key r1 r2 w r3)
    with less.prems(2) show ?thesis
      by (auto simp: is_record_def intro: distinct_dict_set)
  next
    case (more r0 key r1 r2 w r3 r4)
    have "length (skip_ws r4) \<le> length r4" by (rule length_skip_ws)
    moreover have "length (skip_ws r3) \<le> length r3" by (rule length_skip_ws)
    ultimately have "length (skip_ws r4) < length cs" using more(5,6) by simp
    from less.hyps [OF this more(7) distinct_dict_set [OF less.prems(2)]] show ?thesis .
  qed
qed

lemma parse_value_brace_is_record:
  assumes "parse_value depth (123 # r) = Inr (v, rest)"
  shows "is_record v"
proof (cases "starts_with [125] (skip_ws r)")
  case True
  with assms show ?thesis
    by (auto simp: parse_value.simps is_record_def split: if_splits)
next
  case False
  with assms have "parse_object (depth - 1) [] (skip_ws r) = Inr (v, rest)"
    by (auto simp: parse_value.simps split: if_splits)
  then show ?thesis by (rule parse_object_is_record) simp
qed

lemma json_loads_brace_is_record:
  assumes "json_loads depth (123 # r) = Inr v"
  shows "is_record v"
proof -
  have ws: "skip_ws (123 # r) = 123 # r" by (simp add: skip_ws_def is_ws_def)
  from assms obtain rest where "parse_value depth (123 # r) = Inr (v, rest)"
    by (auto simp: json_loads_def ws split: if_splits sum.splits)
  then show ?thesis by (rule parse_value_brace_is_record)
qed

lemma extract_json_is_record:
  assumes "extract_json depth s = Inr v"
  shows "is_record v"
proof (cases "re_search s")
  case None
  with assms show ?thesis by (auto simp: extract_json_def is_record_def)
next
  case (Some m)
  then obtain body where m: "m = 123 # body @ [125]"
    using re_search_Some [OF Some] by auto
  show ?thesis
  proof (cases "json_loads depth m")
    case (Inl e)
    with Some assms show ?thesis
      by (cases e) (auto simp: extract_json_def is_record_def)
  next
    case (Inr w)
    with m have "is_record w" by (auto dest: json_loads_brace_is_record)
    with Inr Some assms show ?thesis by (simp add: extract_json_def)
  qed
qed

lemma is_record_is_dict: "is_record v \<Longrightarrow> is_dict v"
  by (auto simp: is_record_def)

subsection \<open>The exceptions of the decoder\<close>

lemma match_int_digits: "match_int cs = Some (neg, ds, r) \<Longrightarrow> length ds \<le> length cs"
proof -
  assume a: "match_int cs = Some (neg, ds, r)"
  have tw: "\<And>xs. length (takeWhile is_digit xs) \<le> length xs"
    by (rule length_takeWhile_le)
  have tl: "length (tl cs) \<le> length cs" by simp
  from a show ?thesis
    unfolding match_int_def Let_def
    by (cases "cs \<noteq> [] \<and> hd cs = 45"; cases "tl cs"; cases cs)
       (auto split: if_splits list.splits simp: le_SucI tw)
qed

lemma match_number_Inl:
  assumes "match_number cs = Inl e"
  shows "decoder_error e depth cs"
proof (cases "match_int cs")
  case None
  with assms show ?thesis by (simp add: match_number_def decoder_error_def)
next
  case (Some t)
  obtain neg ds r where t: "t = (neg, ds, r)" by (cases t)
  from Some t have "length ds \<le> length cs" by (auto dest: match_int_digits)
  with assms Some t show ?thesis
    by (auto simp: match_number_def decoder_error_def Let_def split: if_splits)
qed

lemma scan_constant_Inl:
  assumes "scan_constant cs = Inl e"
  shows "decoder_error e depth cs"
proof -
  from assms have "match_number cs = Inl e"
    by (simp add: scan_constant_def split: if_splits)
  then show ?thesis by (rule match_number_Inl)
qed

lemma parse_value_Inl:
  assumes "parse_value depth cs = Inl e"
  obtains (malformed) "e = JSONDecodeError"
  | (deep) "e = RecursionError" "depth = 0" "cs \<noteq> []"
  | (in_object) c r where "cs = c # r" "0 < depth" "parse_object (depth - 1) [] (skip_ws r) = Inl e"
  | (in_array) c r where "cs = c # r" "0 < depth" "parse_array (depth - 1) [] (skip_ws r) = Inl e"
  | (atom) "scan_constant cs = Inl e"
proof (cases cs)
  case Nil
  with assms malformed show ?thesis by (simp add: parse_value.simps)
next
  case (Cons c r)
  show ?thesis
  proof (cases "c = 34")
    case True
    with assms Cons have "e = JSONDecodeError"
      by (simp add: parse_value.simps split: option.splits prod.splits)
    then show ?thesis by (rule malformed)
  next
    case not_string: False
    show ?thesis
    proof (cases "c = 123")
      case True
      show ?thesis
      proof (cases "depth = 0")
        case True
        with assms Cons \<open>c = 123\<close> have "e = RecursionError"
          by (simp add: parse_value.simps)
        with True Cons show ?thesis by (intro deep) simp_all
      next
        case False
        with assms Cons \<open>c = 123\<close> have "parse_object (depth - 1) [] (skip_ws r) = Inl e"
          by (simp add: parse_value.simps split: if_splits)
        with False Cons show ?thesis by (intro in_object) simp_all
      qed
    next
      case not_object: False
      show ?thesis
      proof (cases "c = 91")
        case True
        show ?thesis
        proof (cases "depth = 0")
          case True
          with assms Cons \<open>c = 91\<close> have "e = RecursionError"
            by (simp add: parse_value.simps)
          with True Cons show ?thesis by (intro deep) simp_all
        next
          case False
          with assms Cons \<open>c = 91\<close> have "parse_array (depth - 1) [] (skip_ws r) = Inl e"
            by (simp add: parse_value.simps split: if_splits)
          with False Cons show ?thesis by (intro in_array) simp_all
        qed
      next
        case False
        with assms Cons not_string not_object have "scan_constant cs = Inl e"
          by (simp add: parse_value.simps)
        then show ?thesis by (rule atom)
      qed
    qed
  qed
qed

lemma parse_array_Inl:
  assumes "parse_array depth acc cs = Inl e"
  obtains (malformed) "e = JSONDecodeError"
  | (element) "parse_value depth cs = Inl e"
  | (more) v r r1 where "parse_value depth cs = Inr (v, r)" "length r < length cs"
      "skip_ws r = 44 # r1" "parse_array depth (acc @ [v]) (skip_ws r1) = Inl e"
  using assms
  by (subst (asm) parse_array.simps)
     (auto split: list.splits if_splits sum.splits prod.splits)

lemma parse_object_Inl:
  assumes "parse_object depth acc cs = Inl e"
  obtains (malformed) "e = JSONDecodeError"
  | (member) r0 key r1 r2 where "cs = 34 # r0" "scanstring [] r0 = Some (key, r1)"
      "skip_ws r1 = 58 # r2" "parse_value depth (skip_ws r2) = Inl e"
  | (more) w r3 r4 key where "length r3 < length cs" "skip_ws r3 = 44 # r4"
      "parse_object depth (dict_set key w acc) (skip_ws r4) = Inl e"
  using assms
  by (subst (asm) parse_object.simps)
     (auto split: list.splits if_splits option.splits sum.splits prod.splits)

lemma parse_errors:
  "(parse_value depth cs = Inl e \<longrightarrow> decoder_error e depth cs) \<and>
   (\<forall>acc. parse_array depth acc cs = Inl e \<longrightarrow> decoder_error e depth cs) \<and>
   (\<forall>acc. parse_object depth acc cs = Inl e \<longrightarrow> decoder_error e depth cs)"
proof (induction "length cs" arbitrary: depth cs rule: less_induct)
  case less
  have val: "decoder_error e depth cs" if "parse_value depth cs = Inl e"
    using that
  proof (cases rule: parse_value_Inl)
    case malformed
    then show ?thesis by (simp add: decoder_error_def)
  next
    case deep
    then show ?thesis by (cases cs) (simp_all add: decoder_error_def)
  next
    case (in_object c r)
    have len: "length (skip_ws r) \<le> length r" by (rule length_skip_ws)
    with in_object have "length (skip_ws r) < length cs" by simp
    from less.hyps [OF this, of "depth - 1"] in_object(3)
    have "decoder_error e (depth - 1) (skip_ws r)" by blast
    then show ?thesis
      using len in_object(1,2) by (auto simp: decoder_error_def)
  next
    case (in_array c r)
    have len: "length (skip_ws r) \<le> length r" by (rule length_skip_ws)
    with in_array have "length (skip_ws r) < length cs" by simp
    from less.hyps [OF this, of "depth - 1"] in_array(3)
    have "decoder_error e (depth - 1) (skip_ws r)" by blast
    then show ?thesis
      using len in_array(1,2) by (auto simp: decoder_error_def)
  next
    case atom
    then show ?thesis by (rule scan_constant_Inl)
  qed
  have arr: "decoder_error e depth cs" if "parse_array depth acc cs = Inl e" for acc
    using that
  proof (cases rule: parse_array_Inl)
    case malformed
    then show ?thesis by (simp add: decoder_error_def)
  next
    case element
    then show ?thesis by (rule val)
  next
    case (more v r r1)
    have "length (skip_ws r1) \<le> length r1" by (rule length_skip_ws)
    moreover have "length (skip_ws r) \<le> length r" by (rule length_skip_ws)
    ultimately have len: "length (skip_ws r1) < length cs" using more(2,3) by simp
    from less.hyps [OF this, of depth] more(4)
    have "decoder_error e depth (skip_ws r1)" by blast
    then show ?thesis
      using len by (auto simp: decoder_error_def)
  qed
  have obj: "decoder_error e depth cs" if "parse_object depth acc cs = Inl e" for acc
    using that
  proof (cases rule: parse_object_Inl)
    case malformed
    then show ?thesis by (simp add: decoder_error_def)
  next
    case (member r0 key r1 r2)
    have "length (skip_ws r2) \<le> length r2" by (rule length_skip_ws)
    moreover have "length (skip_ws r1) \<le> length r1" by (rule length_skip_ws)
    moreover from member(2) have "length r1 < length r0" by (rule scanstring_shorter)
    ultimately have len: "length (skip_ws r2) < length cs" using member(1,3) by simp
    from less.hyps [OF this, of depth] member(4)
    have "decoder_error e depth (skip_ws r2)" by blast
    then show ?thesis
      using len by (auto simp: decoder_error_def)
  next
    case (more w r3 r4 key)
    have "length (skip_ws r4) \<le> length r4" by (rule length_skip_ws)
    moreover have "length (skip_ws r3) \<le> length r3" by (rule length_skip_ws)
    ultimately have len: "length (skip_ws r4) < length cs" using more(1,2) by simp
    from less.hyps [OF this, of depth] more(3)
    have "decoder_error e depth (skip_ws r4)" by blast
    then show ?thesis
      using len by (auto simp: decoder_error_def)
  qed
  from val arr obj show ?case by blast
qed

lemma json_loads_Inl:
  assumes "json_loads depth s = Inl e"
  shows "decoder_error e depth s"
proof (cases "parse_value depth (skip_ws s)")
  case (Inl e')
  with assms have "e = JSONDecodeError \<or> e' = e"
    by (auto simp: json_loads_def split: if_splits)
  moreover from Inl parse_errors [of depth "skip_ws s" e']
  have "decoder_error e' depth (skip_ws s)" by blast
  moreover have "length (skip_ws s) \<le> length s" by (rule length_skip_ws)
  ultimately show ?thesis by (auto simp: decoder_error_def)
next
  case (Inr p)
  with assms have "e = JSONDecodeError"
    by (cases p) (auto simp: json_loads_def split: if_splits)
  then show ?thesis by (simp add: decoder_error_def)
qed

subsection \<open>What \<open>extract_json\<close> and \<open>extract_metadata\<close> return\<close>

lemma extract_json_Inl:
  assumes "extract_json depth s = Inl e"
  shows "(e = ValueError \<and> int_max_str_digits < length s) \<or>
         (e = RecursionError \<and> depth < length s)"
proof (cases "re_search s")
  case None
  with assms show ?thesis by (simp add: extract_json_def)
next
  case (Some m)
  from re_search_Some [OF Some] have len: "length m \<le> length s" by auto
  from assms Some have loads: "json_loads depth m = Inl e" and e: "e \<noteq> JSONDecodeError"
    by (auto simp: extract_json_def split: sum.splits error.splits)
  from json_loads_Inl [OF loads] e len show ?thesis
    by (auto simp: decoder_error_def)
qed

lemma fallback_is_record: "is_record fallback_metadata"
  by (simp add: is_record_def fallback_metadata_def str_of_def)

lemma extract_metadata_eq:
  "extract_metadata env post =
     (case llm env (metadata_prompt (clean_text post)) of
        Inr response \<Rightarrow> extract_json (recursion_left env) (strip response)
      | Inl (OutputParserException msg) \<Rightarrow> Inr fallback_metadata
      | Inl JSONDecodeError \<Rightarrow> Inr fallback_metadata
      | Inl e \<Rightarrow> Inl e)"
proof (cases "llm env (metadata_prompt (clean_text post))")
  case (Inl e)
  then show ?thesis
    by (cases e) (simp_all add: extract_metadata_def)
next
  case (Inr response)
  show ?thesis
  proof (cases "extract_json (recursion_left env) (strip response)")
    case (Inl e)
    from extract_json_Inl [OF Inl] Inl Inr show ?thesis
      by (auto simp: extract_metadata_def)
  next
    case inner: (Inr res)
    from extract_json_is_record [OF inner] have "is_dict res" by (rule is_record_is_dict)
    with inner Inr show ?thesis by (simp add: extract_metadata_def)
  qed
qed

lemma extract_metadata_is_record:
  assumes "extract_metadata env post = Inr v"
  shows "is_record v"
proof (cases "llm env (metadata_prompt (clean_text post))")
  case (Inl e)
  with assms show ?thesis
    by (cases e) (auto simp: extract_metadata_eq fallback_is_record)
next
  case (Inr response)
  with assms have "extract_json (recursion_left env) (strip response) = Inr v"
    by (simp add: extract_metadata_eq)
  then show ?thesis by (rule extract_json_is_record)
qed

subsection \<open>Running the program on a text\<close>

text \<open>The rules that compute the decoder and the program on a given text.\<close>

lemmas decoder_eval =
  json_loads_def starts_with_def skip_ws_def is_ws_def parse_value.simps parse_array.simps
  parse_object.simps scan_constant_def match_number_def match_int_def match_frac_def
  match_exp_def is_digit_def int_of_digits_def str_of_def int_max_str_digits_def Let_def

lemmas program_eval =
  extract_json_def re_search_def extract_metadata_def strip_def is_space_def clean_text_def
  metadata_prompt_def unify_prompt_def fallback_metadata_def get_unified_tags_def
  join_tags_def enrich_post_def dict_get_def dict_merge_def unified_get_def retag_post_def
  process_posts_def json_dump_def

text \<open>
  The stubbed model of the specification's end-to-end example: it answers the
  extraction prompt (which starts with a line feed) with the metadata of the example and
  the unification prompt with the mapping of the example. \<open>stub_env\<close> adds an order of
  sets (first occurrences, in the order they were added) and a recursion limit.
\<close>

definition stub_llm :: "str \<Rightarrow> error + str" where
  \<open>stub_llm prompt =
     (if starts_with [10] prompt
        then Inr (str_of ''{"line_count": 1, "language": "English", "tags": ["Job Search", "Hiring"]}'')
      else Inr (str_of ''{"Job Search": "Job Search", "Hiring": "Job Search"}''))\<close>

definition stub_env :: env where
  "stub_env = \<lparr>llm = stub_llm, set_list = remdups, recursion_left = 1000\<rparr>"

lemma stub_metadata:
  \<open>extract_metadata stub_env (clean_text (str_of ''hi'')) =
     Inr (JObject [(str_of ''line_count'', JInt 1),
                   (str_of ''language'', JString (str_of ''English'')),
                   (str_of ''tags'', JArray [JString (str_of ''Job Search''),
                                             JString (str_of ''Hiring'')])])\<close>
  by (simp add: stub_env_def stub_llm_def program_eval decoder_eval)


subsection \<open>Merging the metadata into a record\<close>

lemma enrich_post_lookup:
  assumes "dict_get post (str_of ''text'') (JString []) = JString text"
      and "extract_metadata env (clean_text text) = Inr metadata"
  shows "\<exists>md merged.
           metadata = JObject md \<and>
           enrich_post env (JObject post) = Inr (JObject merged) \<and>
           (\<forall>k. map_of merged k =
              (if k \<in> dict_keys md then map_of md k
               else if k = str_of ''tags'' \<and> k \<notin> dict_keys post then Some (JArray [])
               else map_of (dict_set (str_of ''text'') (JString (clean_text text)) post) k))"
proof -
  from extract_metadata_is_record [OF assms(2)] obtain md where
      md: "metadata = JObject md" and dist: "distinct (map fst md)"
    by (auto simp: is_record_def)
  define post1 where "post1 = dict_set (str_of ''text'') (JString (clean_text text)) post"
  define pwm where "pwm = dict_merge post1 md"
  define merged where
    "merged = dict_set (str_of ''tags'') (dict_get pwm (str_of ''tags'') (JArray [])) pwm"
  have run: "enrich_post env (JObject post) = Inr (JObject merged)"
    using assms md by (simp add: enrich_post_def Let_def merged_def pwm_def post1_def)
  have pwm: "map_of pwm k = (if k \<in> dict_keys md then map_of md k else map_of post1 k)" for k
  proof -
    have "map_of pwm k = (map_of post1 ++ map_of md) k"
      by (simp add: pwm_def map_of_dict_merge map_of_rev_distinct [OF dist])
    then show ?thesis
      by (cases "map_of md k") (auto simp: map_add_def dict_keys_dom)
  qed
  have tags_post1: "str_of ''tags'' \<in> dict_keys post1 \<longleftrightarrow> str_of ''tags'' \<in> dict_keys post"
    by (simp add: post1_def dict_keys_dict_set str_of_def)
  have "map_of merged k =
          (if k \<in> dict_keys md then map_of md k
           else if k = str_of ''tags'' \<and> k \<notin> dict_keys post then Some (JArray [])
           else map_of post1 k)" for k
  proof (cases "k = str_of ''tags''")
    case False
    then show ?thesis by (simp add: merged_def map_of_dict_set pwm)
  next
    case True
    have "map_of merged k = Some (dict_get pwm k (JArray []))"
      by (simp add: merged_def map_of_dict_set True)
    also have "\<dots> = (if k \<in> dict_keys md then map_of md k
           else if k \<notin> dict_keys post then Some (JArray [])
           else map_of post1 k)"
      using tags_post1 True
      by (cases "map_of md k"; cases "map_of post1 k")
         (auto simp: dict_get_def pwm dict_keys_dom)
    finally show ?thesis using True by simp
  qed
  with md run show ?thesis by (auto simp: post1_def)
qed

text \<open>
  Claim C8. When the first loop of \<open>process_posts\<close> merges the extracted metadata into
  a post record (\<open>{**post, **metadata}\<close>), a field name of the metadata holds the
  metadata's value in the enriched record, also when the record had a field of that
  name, and every field of the record whose name is not a key of the metadata keeps the
  value it had when the merge was made, that is, with the text cleaned. (The \<open>tags\<close>
  key, when neither has it, is the empty list that the next statement stores.)
\<close>

theorem enrich_post_merge:
  assumes "dict_get post (str_of ''text'') (JString []) = JString text"
      and "extract_metadata env (clean_text text) = Inr metadata"
  shows "\<exists>md merged.
           metadata = JObject md \<and>
           enrich_post env (JObject post) = Inr (JObject merged) \<and>
           (\<forall>k. map_of merged k =
              (if k \<in> dict_keys md then map_of md k
               else if k = str_of ''tags'' \<and> k \<notin> dict_keys post then Some (JArray [])
               else map_of (dict_set (str_of ''text'') (JString (clean_text text)) post) k))"
  using assms by (rule enrich_post_lookup)

theorem enrich_post_merge_witness:
  "dict_get [(str_of ''text'', JString (str_of ''hi'')),
             (str_of ''language'', JString (str_of ''French'')),
             (str_of ''author'', JString (str_of ''Ann''))]
            (str_of ''text'') (JString []) = JString (str_of ''hi'')
   \<and> (\<exists>merged.
         enrich_post stub_env
           (JObject [(str_of ''text'', JString (str_of ''hi'')),
                     (str_of ''language'', JString (str_of ''French'')),
                     (str_of ''author'', JString (str_of ''Ann''))]) = Inr (JObject merged)
         \<and> map_of merged (str_of ''language'') = Some (JString (str_of ''English''))
         \<and> map_of merged (str_of ''author'') = Some (JString (str_of ''Ann'')))"
proof -
  let ?post = "[(str_of ''text'', JString (str_of ''hi'')),
                (str_of ''language'', JString (str_of ''French'')),
                (str_of ''author'', JString (str_of ''Ann''))]"
  have a: "dict_get ?post (str_of ''text'') (JString []) = JString (str_of ''hi'')"
    by (simp add: dict_get_def str_of_def)
  from enrich_post_merge [OF a stub_metadata] obtain md merged where
      md: "JObject [(str_of ''line_count'', JInt 1),
                    (str_of ''language'', JString (str_of ''English'')),
                    (str_of ''tags'', JArray [JString (str_of ''Job Search''),
                                              JString (str_of ''Hiring'')])] = JObject md"
      and run: "enrich_post stub_env (JObject ?post) = Inr (JObject merged)"
      and look: "\<And>k. map_of merged k =
              (if k \<in> dict_keys md then map_of md k
               else if k = str_of ''tags'' \<and> k \<notin> dict_keys ?post then Some (JArray [])
               else map_of (dict_set (str_of ''text'') (JString (clean_text (str_of ''hi''))) ?post) k)"
    by blast
  from md have md': "md = [(str_of ''line_count'', JInt 1),
                    (str_of ''language'', JString (str_of ''English'')),
                    (str_of ''tags'', JArray [JString (str_of ''Job Search''),
                                              JString (str_of ''Hiring'')])]"
    by simp
  have "map_of merged (str_of ''language'') = Some (JString (str_of ''English''))"
    unfolding look md' by (simp add: dict_keys_def str_of_def)
  moreover have "map_of merged (str_of ''author'') = Some (JString (str_of ''Ann''))"
    unfolding look md' by (simp add: dict_keys_def str_of_def)
  ultimately show ?thesis using a run by blast
qed

subsection \<open>The results are dicts\<close>

text \<open>
  Claim C10. A text that the regular expression matched starts with a brace, and what
  the decoder returns for such a text is a dict: when the matched text decodes,
  \<open>extract_json\<close> returns the decoded dict. Every value that \<open>extract_json\<close>
  returns is a dict (the only other outcomes are the decoder's \<open>ValueError\<close> and
  \<open>RecursionError\<close>, which are exceptions and not values). So the branch of
  \<open>extract_metadata\<close> for a result that is no dict is never taken
  (\<open>extract_metadata\<close> is equal to the function without it), and every value that
  \<open>extract_metadata\<close> returns is a dict.
\<close>

theorem extract_json_always_dict:
  "(\<forall>m v. re_search s = Some m \<longrightarrow> json_loads depth m = Inr v \<longrightarrow>
        is_dict v \<and> extract_json depth s = Inr v)
   \<and> (\<forall>v. extract_json depth s = Inr v \<longrightarrow> is_dict v)
   \<and> (\<forall>e. extract_json depth s = Inl e \<longrightarrow>
        (e = ValueError \<and> int_max_str_digits < length s) \<or>
        (e = RecursionError \<and> depth < length s))
   \<and> extract_metadata env post =
       (case llm env (metadata_prompt (clean_text post)) of
          Inr response \<Rightarrow> extract_json (recursion_left env) (strip response)
        | Inl (OutputParserException msg) \<Rightarrow> Inr fallback_metadata
        | Inl JSONDecodeError \<Rightarrow> Inr fallback_metadata
        | Inl e \<Rightarrow> Inl e)
   \<and> (\<forall>v. extract_metadata env post = Inr v \<longrightarrow> is_dict v)"
proof (intro conjI allI impI)
  fix m v assume m: "re_search s = Some m" and v: "json_loads depth m = Inr v"
  then show "extract_json depth s = Inr v" by (simp add: extract_json_def)
  then show "is_dict v" by (intro is_record_is_dict extract_json_is_record)
next
  fix v assume "extract_json depth s = Inr v"
  then show "is_dict v" by (intro is_record_is_dict extract_json_is_record)
next
  fix e assume "extract_json depth s = Inl e"
  then show "(e = ValueError \<and> int_max_str_digits < length s) \<or>
             (e = RecursionError \<and> depth < length s)"
    by (rule extract_json_Inl)
next
  show "extract_metadata env post =
       (case llm env (metadata_prompt (clean_text post)) of
          Inr response \<Rightarrow> extract_json (recursion_left env) (strip response)
        | Inl (OutputParserException msg) \<Rightarrow> Inr fallback_metadata
        | Inl JSONDecodeError \<Rightarrow> Inr fallback_metadata
        | Inl e \<Rightarrow> Inl e)"
    by (rule extract_metadata_eq)
next
  fix v assume "extract_metadata env post = Inr v"
  then show "is_dict v" by (intro is_record_is_dict extract_metadata_is_record)
qed

lemma stub_extract_json:
  \<open>extract_json 1000 (str_of ''Sure! {"tags": ["AI"]} Hope it helps.'') =
     Inr (JObject [(str_of ''tags'', JArray [JString (str_of ''AI'')])])\<close>
  by (simp add: program_eval decoder_eval)

theorem extract_json_always_dict_witness:
  \<open>extract_json 1000 (str_of ''Sure! {"tags": ["AI"]} Hope it helps.'') =
     Inr (JObject [(str_of ''tags'', JArray [JString (str_of ''AI'')])])
   \<and> is_dict (JObject [(str_of ''tags'', JArray [JString (str_of ''AI'')])])
   \<and> extract_metadata stub_env (clean_text (str_of ''hi'')) =
     Inr (JObject [(str_of ''line_count'', JInt 1),
                   (str_of ''language'', JString (str_of ''English'')),
                   (str_of ''tags'', JArray [JString (str_of ''Job Search''),
                                             JString (str_of ''Hiring'')])])
   \<and> is_dict (JObject [(str_of ''line_count'', JInt 1),
                   (str_of ''language'', JString (str_of ''English'')),
                   (str_of ''tags'', JArray [JString (str_of ''Job Search''),
                                             JString (str_of ''Hiring'')])])\<close>
proof -
  note all = extract_json_always_dict
    [of \<open>str_of ''Sure! {"tags": ["AI"]} Hope it helps.''\<close> 1000 stub_env
        "clean_text (str_of ''hi'')"]
  from all stub_extract_json
  have a: \<open>is_dict (JObject [(str_of ''tags'', JArray [JString (str_of ''AI'')])])\<close>
    by blast
  from all stub_metadata
  have b: \<open>is_dict (JObject [(str_of ''line_count'', JInt 1),
                   (str_of ''language'', JString (str_of ''English'')),
                   (str_of ''tags'', JArray [JString (str_of ''Job Search''),
                                             JString (str_of ''Hiring'')])])\<close>
    by blast
  from a b stub_extract_json stub_metadata show ?thesis by blast
qed

subsection \<open>The object between the first and the last brace\<close>

text \<open>
  Claim C3, as amended. The claim fails when the prose has a brace of its own: the match
  runs from the first \<open>{\<close> of the response to its last \<open>}\<close>, whatever lies between.
  What holds: when the prose before a well-formed JSON object has no \<open>{\<close> and the prose
  after it has no \<open>}\<close>, \<open>extract_json\<close> returns the parsed value of the object.
\<close>

theorem extract_json_span:
  assumes "123 \<notin> set pre" and "125 \<notin> set post"
      and "json_loads depth (123 # body @ [125]) = Inr v"
  shows "extract_json depth (pre @ 123 # body @ [125] @ post) = Inr v"
proof -
  from re_search_span [OF assms(1,2)]
  have "re_search (pre @ 123 # body @ [125] @ post) = Some (123 # body @ [125])" .
  with assms(3) show ?thesis by (simp add: extract_json_def)
qed

theorem extract_json_span_witness:
  \<open>extract_json 1000
     (str_of ''Sure! '' @ 123 # str_of ''"tags": ["AI"]'' @ [125] @ str_of '' Hope it helps.'') =
   Inr (JObject [(str_of ''tags'', JArray [JString (str_of ''AI'')])])\<close>
proof -
  have a: "123 \<notin> set (str_of ''Sure! '')" by (simp add: str_of_def)
  have b: "125 \<notin> set (str_of '' Hope it helps.'')" by (simp add: str_of_def)
  have c: \<open>json_loads 1000 (123 # str_of ''"tags": ["AI"]'' @ [125]) =
           Inr (JObject [(str_of ''tags'', JArray [JString (str_of ''AI'')])])\<close>
    by (simp add: decoder_eval)
  from extract_json_span [OF a b c] show ?thesis .
qed

text \<open>
  The claim as stated fails: the response \<open>Use {braces}: {"x": 1}\<close> contains the
  well-formed object \<open>{"x": 1}\<close>, and \<open>extract_json\<close> returns the empty dict.
\<close>

theorem extract_json_braces_in_prose_counterexample:
  \<open>json_loads 1000 (str_of ''{"x": 1}'') = Inr (JObject [(str_of ''x'', JInt 1)])
   \<and> extract_json 1000 (str_of ''Use {braces}: '' @ str_of ''{"x": 1}'') = Inr (JObject [])\<close>
  by (simp add: program_eval decoder_eval)

subsection \<open>A response with no valid JSON between braces\<close>

text \<open>
  A response contains no valid brace-delimited JSON when the decoder accepts none of its
  parts that start with \<open>{\<close> and end with \<open>}\<close>.
\<close>

definition brace_delimited :: "str \<Rightarrow> bool" where
  "brace_delimited c \<longleftrightarrow> c \<noteq> [] \<and> hd c = 123 \<and> last c = 125"

definition no_valid_json :: "nat \<Rightarrow> str \<Rightarrow> bool" where
  "no_valid_json depth s \<longleftrightarrow>
     (\<forall>pre c post. s = pre @ c @ post \<and> brace_delimited c \<longrightarrow>
        (\<forall>v. json_loads depth c \<noteq> Inr v))"

lemma brace_span_unique:
  assumes p0: "123 \<notin> set p0" "125 \<notin> set p0"
      and body: "123 \<notin> set body" "125 \<notin> set body"
      and q0: "123 \<notin> set q0" "125 \<notin> set q0"
      and eq: "p0 @ 123 # body @ 125 # q0 = pre @ c @ post"
      and c: "brace_delimited c"
  shows "c = 123 # body @ [125]"
proof -
  from c obtain c1 where c1: "c = 123 # c1"
    by (cases c) (auto simp: brace_delimited_def)
  from c c1 have "c1 \<noteq> []" "last c1 = 125"
    by (auto simp: brace_delimited_def split: if_splits)
  then obtain c2 where c2: "c1 = c2 @ [125]"
    by (metis append_butlast_last_id)
  from eq c1 have eq1: "p0 @ 123 # (body @ 125 # q0) = pre @ 123 # (c1 @ post)"
    by simp
  have pre: "pre = p0"
  proof (rule ccontr)
    assume "pre \<noteq> p0"
    with eq1 have "123 \<in> set p0 \<or> 123 \<in> set (body @ 125 # q0)"
      by (auto simp: append_eq_append_conv2 append_eq_Cons_conv Cons_eq_append_conv)
    with p0 body q0 show False by auto
  qed
  with eq1 c2 have eq2: "body @ 125 # q0 = c2 @ 125 # post" by simp
  have "c2 = body"
  proof (rule ccontr)
    assume "c2 \<noteq> body"
    from eq2 \<open>c2 \<noteq> body\<close> have "125 \<in> set body \<or> (\<exists>us. q0 = us @ 125 # post)"
      by (auto simp: append_eq_append_conv2 append_eq_Cons_conv Cons_eq_append_conv)
    with body q0 show False by auto
  qed
  with c1 c2 show ?thesis by simp
qed

lemma no_valid_json_only_span:
  assumes "123 \<notin> set p0" "125 \<notin> set p0" "123 \<notin> set body" "125 \<notin> set body"
      and "123 \<notin> set q0" "125 \<notin> set q0"
      and "json_loads depth (123 # body @ [125]) = Inl e"
  shows "no_valid_json depth (p0 @ 123 # body @ 125 # q0)"
  unfolding no_valid_json_def
proof (intro allI impI)
  fix pre c post v
  assume "p0 @ 123 # body @ 125 # q0 = pre @ c @ post \<and> brace_delimited c"
  then have "c = 123 # body @ [125]"
    using assms(1-6) by (intro brace_span_unique [of p0 body q0 pre c post]) simp_all
  with assms(7) show "json_loads depth c \<noteq> Inr v" by simp
qed

lemma takeWhile_digits_ones:
  "\<not> is_digit c \<Longrightarrow> takeWhile is_digit (replicate k 49 @ c # r) = replicate k 49"
  by (induction k) (simp_all add: is_digit_def)

lemma dropWhile_digits_ones:
  "\<not> is_digit c \<Longrightarrow> dropWhile is_digit (replicate k 49 @ c # r) = c # r"
proof (induction k)
  case 0
  then show ?case by simp
next
  case (Suc k)
  have "is_digit 49" by (simp add: is_digit_def)
  with Suc show ?case by simp
qed

lemma match_number_long:
  assumes "int_max_str_digits \<le> k"
  shows "match_number (49 # replicate k 49 @ 32 # r) = Inl ValueError"
proof -
  have sp: "\<not> is_digit 32" by (simp add: is_digit_def)
  have "match_int (49 # replicate k 49 @ 32 # r) = Some (False, 49 # replicate k 49, 32 # r)"
    by (simp add: match_int_def takeWhile_digits_ones [OF sp] dropWhile_digits_ones [OF sp])
  moreover have "match_frac (32 # r) = ([], 32 # r)" by (simp add: match_frac_def)
  moreover have "match_exp (32 # r) = ([], 32 # r)" by (simp add: match_exp_def)
  ultimately show ?thesis using assms by (simp add: match_number_def)
qed

lemma long_int_ValueError:
  assumes "int_max_str_digits \<le> k" and "0 < depth"
  shows \<open>json_loads depth (123 # (str_of ''"n": 1'' @ replicate k 49 @ str_of '' x'') @ [125]) =
         Inl ValueError\<close>
proof -
  have sc: "scan_constant (49 # replicate k 49 @ 32 # r) = Inl ValueError" for r
    using match_number_long [OF assms(1)] by (simp add: scan_constant_def starts_with_def str_of_def)
  have pv: "parse_value depth (49 # replicate k 49 @ 32 # r) = Inl ValueError" for r
    using sc by (simp add: parse_value.simps)
  show ?thesis
    using assms(2) pv
    by (simp add: json_loads_def starts_with_def skip_ws_def is_ws_def parse_value.simps
          parse_object.simps str_of_def)
qed

text \<open>
  Claim C7, as amended. For a response string with no valid brace-delimited JSON (no part
  of it that starts with \<open>{\<close> and ends with \<open>}\<close> is accepted by the decoder),
  \<open>extract_json\<close> returns the empty dict and swallows the decoder's
  \<open>JSONDecodeError\<close>; but it catches that exception alone, and the two other
  exceptions of the decoder leave it: the \<open>ValueError\<close> for an integer literal of more
  than 4300 digits, which needs a response of more than 4300 characters, and the
  \<open>RecursionError\<close> for nesting beyond what the interpreter allows, which needs a
  response of more characters than that.
\<close>

theorem extract_json_no_valid_json:
  assumes "no_valid_json depth s"
  shows "extract_json depth s = Inr (JObject [])
         \<or> (extract_json depth s = Inl ValueError \<and> int_max_str_digits < length s)
         \<or> (extract_json depth s = Inl RecursionError \<and> depth < length s)"
proof (cases "extract_json depth s")
  case (Inl e)
  with extract_json_Inl [OF Inl] show ?thesis by auto
next
  case (Inr v)
  show ?thesis
  proof (cases "re_search s")
    case None
    then show ?thesis by (simp add: extract_json_def)
  next
    case (Some m)
    from re_search_Some [OF Some] obtain pre body post where
        split: "s = pre @ m @ post" and m: "m = 123 # body @ [125]"
      by blast
    from m have "brace_delimited m" by (simp add: brace_delimited_def)
    with assms split have "\<forall>v. json_loads depth m \<noteq> Inr v"
      unfolding no_valid_json_def by blast
    then obtain e where e: "json_loads depth m = Inl e"
      by (cases "json_loads depth m") auto
    with Some Inr show ?thesis
      by (cases e) (simp_all add: extract_json_def)
  qed
qed

theorem extract_json_no_valid_json_witness:
  "no_valid_json 1000 (str_of ''oops {not json} here'')
   \<and> extract_json 1000 (str_of ''oops {not json} here'') = Inr (JObject [])"
proof -
  have shape: "str_of ''oops {not json} here'' =
               str_of ''oops '' @ 123 # str_of ''not json'' @ 125 # str_of '' here''"
    by (simp add: str_of_def)
  have bad: "json_loads 1000 (123 # str_of ''not json'' @ [125]) = Inl JSONDecodeError"
    by (simp add: decoder_eval)
  have nv: "no_valid_json 1000 (str_of ''oops {not json} here'')"
    unfolding shape
    by (rule no_valid_json_only_span [OF _ _ _ _ _ _ bad]) (simp_all add: str_of_def)
  have short: "\<not> int_max_str_digits < length (str_of ''oops {not json} here'')"
              "\<not> 1000 < length (str_of ''oops {not json} here'')"
    by (simp_all add: str_of_def int_max_str_digits_def)
  from extract_json_no_valid_json [OF nv] short nv show ?thesis by blast
qed

text \<open>
  The claim as stated fails: in the response \<open>{"n": 11...1 x}\<close> with 4301 digits the
  only part between braces is the whole response, which is no JSON, and
  \<open>extract_json\<close> raises the \<open>ValueError\<close> of the conversion of the integer.
\<close>

theorem extract_json_long_integer_counterexample:
  \<open>no_valid_json 1000 (str_of ''{"n": 1'' @ replicate 4300 49 @ str_of '' x}'')
   \<and> extract_json 1000 (str_of ''{"n": 1'' @ replicate 4300 49 @ str_of '' x}'') = Inl ValueError\<close>
proof -
  let ?body = \<open>str_of ''"n": 1'' @ replicate 4300 49 @ str_of '' x''\<close>
  have shape: \<open>str_of ''{"n": 1'' @ replicate 4300 49 @ str_of '' x}'' =
               [] @ 123 # ?body @ 125 # []\<close>
    by (simp add: str_of_def)
  have bad: "json_loads 1000 (123 # ?body @ [125]) = Inl ValueError"
    by (rule long_int_ValueError) (simp_all add: int_max_str_digits_def)
  have nv: "no_valid_json 1000 ([] @ 123 # ?body @ 125 # [])"
    by (rule no_valid_json_only_span [OF _ _ _ _ _ _ bad]) (simp_all add: str_of_def)
  have "re_search ([] @ 123 # ?body @ [125] @ []) = Some (123 # ?body @ [125])"
    by (rule re_search_span) simp_all
  then have "re_search ([] @ 123 # ?body @ 125 # []) = Some (123 # ?body @ [125])"
    by simp
  with bad have "extract_json 1000 ([] @ 123 # ?body @ 125 # []) = Inl ValueError"
    by (simp add: extract_json_def)
  with nv show ?thesis unfolding shape by blast
qed

subsection \<open>What the metadata extractor returns\<close>

text \<open>
  Claim C2, as amended. When the call of the model raises \<open>OutputParserException\<close> or
  \<open>JSONDecodeError\<close>, \<open>extract_metadata\<close> returns exactly the fixed fallback, with
  \<open>line_count\<close> 0, \<open>language\<close> \<open>"Unknown"\<close> and no \<open>tags\<close>. When the model
  answers and the text from the first \<open>{\<close> to the last \<open>}\<close> of the answer decodes,
  \<open>extract_metadata\<close> returns the decoded dict as it is: it has the keys
  \<open>line_count\<close>, \<open>language\<close> and \<open>tags\<close> when the model's object has them, and
  not otherwise.
\<close>

theorem extract_metadata_outcomes:
  "((\<exists>msg. llm env (metadata_prompt (clean_text post)) = Inl (OutputParserException msg))
      \<or> llm env (metadata_prompt (clean_text post)) = Inl JSONDecodeError
     \<longrightarrow> extract_metadata env post = Inr fallback_metadata)
   \<and> fallback_metadata =
         JObject [(str_of ''line_count'', JInt 0),
                  (str_of ''language'', JString (str_of ''Unknown'')),
                  (str_of ''tags'', JArray [])]
   \<and> (\<forall>response m v.
         llm env (metadata_prompt (clean_text post)) = Inr response \<and>
         re_search (strip response) = Some m \<and>
         json_loads (recursion_left env) m = Inr v
         \<longrightarrow> extract_metadata env post = Inr v)"
proof (intro conjI allI impI)
  assume "(\<exists>msg. llm env (metadata_prompt (clean_text post)) = Inl (OutputParserException msg))
          \<or> llm env (metadata_prompt (clean_text post)) = Inl JSONDecodeError"
  then show "extract_metadata env post = Inr fallback_metadata"
    by (auto simp: extract_metadata_eq)
next
  show "fallback_metadata =
         JObject [(str_of ''line_count'', JInt 0),
                  (str_of ''language'', JString (str_of ''Unknown'')),
                  (str_of ''tags'', JArray [])]"
    by (rule fallback_metadata_def)
next
  fix response m v
  assume "llm env (metadata_prompt (clean_text post)) = Inr response \<and>
          re_search (strip response) = Some m \<and>
          json_loads (recursion_left env) m = Inr v"
  then show "extract_metadata env post = Inr v"
    by (simp add: extract_metadata_eq extract_json_def)
qed

theorem extract_metadata_outcomes_witness:
  \<open>extract_metadata \<lparr>llm = \<lambda>prompt. Inl JSONDecodeError, set_list = remdups, recursion_left = 1000\<rparr>
     (str_of ''hi'') =
     Inr (JObject [(str_of ''line_count'', JInt 0),
                   (str_of ''language'', JString (str_of ''Unknown'')),
                   (str_of ''tags'', JArray [])])
   \<and> extract_metadata stub_env (str_of ''hi'') =
     Inr (JObject [(str_of ''line_count'', JInt 1),
                   (str_of ''language'', JString (str_of ''English'')),
                   (str_of ''tags'', JArray [JString (str_of ''Job Search''),
                                             JString (str_of ''Hiring'')])])\<close>
proof -
  let ?env = "\<lparr>llm = \<lambda>prompt. Inl JSONDecodeError, set_list = remdups, recursion_left = 1000\<rparr>"
  let ?answer = \<open>str_of ''{"line_count": 1, "language": "English", "tags": ["Job Search", "Hiring"]}''\<close>
  have raised: "llm ?env (metadata_prompt (clean_text (str_of ''hi''))) = Inl JSONDecodeError"
    by simp
  from extract_metadata_outcomes [of ?env "str_of ''hi''"] raised
  have "extract_metadata ?env (str_of ''hi'') = Inr fallback_metadata"
    by blast
  then have first: "extract_metadata ?env (str_of ''hi'') =
     Inr (JObject [(str_of ''line_count'', JInt 0),
                   (str_of ''language'', JString (str_of ''Unknown'')),
                   (str_of ''tags'', JArray [])])"
    by (simp add: fallback_metadata_def)
  have answered: "llm stub_env (metadata_prompt (clean_text (str_of ''hi''))) = Inr ?answer"
    by (simp add: stub_env_def stub_llm_def metadata_prompt_def starts_with_def)
  have found: "re_search (strip ?answer) = Some ?answer"
    by (simp add: re_search_def strip_def is_space_def str_of_def)
  have decoded: "json_loads (recursion_left stub_env) ?answer =
     Inr (JObject [(str_of ''line_count'', JInt 1),
                   (str_of ''language'', JString (str_of ''English'')),
                   (str_of ''tags'', JArray [JString (str_of ''Job Search''),
                                             JString (str_of ''Hiring'')])])"
    by (simp add: stub_env_def decoder_eval)
  from extract_metadata_outcomes [of stub_env "str_of ''hi''"] answered found decoded
  have "extract_metadata stub_env (str_of ''hi'') =
     Inr (JObject [(str_of ''line_count'', JInt 1),
                   (str_of ''language'', JString (str_of ''English'')),
                   (str_of ''tags'', JArray [JString (str_of ''Job Search''),
                                             JString (str_of ''Hiring'')])])"
    by blast
  with first show ?thesis by blast
qed

text \<open>
  The claim as stated fails: to a model that answers \<open>{"language": "English"}\<close>,
  \<open>extract_metadata\<close> returns that dict, which has neither \<open>line_count\<close> nor
  \<open>tags\<close>.
\<close>

theorem extract_metadata_keys_counterexample:
  \<open>extract_metadata
     \<lparr>llm = \<lambda>prompt. Inr (str_of ''{"language": "English"}''),
      set_list = remdups, recursion_left = 1000\<rparr>
     (str_of ''hi'') = Inr (JObject [(str_of ''language'', JString (str_of ''English''))])
   \<and> str_of ''tags'' \<notin> dict_keys [(str_of ''language'', JString (str_of ''English''))]
   \<and> str_of ''line_count'' \<notin> dict_keys [(str_of ''language'', JString (str_of ''English''))]\<close>
  by (simp add: program_eval decoder_eval dict_keys_def)

subsection \<open>A unification response that cannot be parsed\<close>

text \<open>
  Claim C1 does not hold of the code. When the response of the unification model has no
  text between braces, or that text cannot be parsed as JSON, \<open>get_unified_tags\<close>
  returns the empty dict: \<open>extract_json\<close> has swallowed the \<open>JSONDecodeError\<close>, and the
  handler that raises "Context too big. Unable to parse jobs." waits for an
  \<open>OutputParserException\<close> that nothing in its \<open>try\<close> block raises.
\<close>

theorem get_unified_tags_absorbs_parse_failure:
  assumes "collect_tags [] posts = Inr unique_tags"
      and "join_tags (set_list env unique_tags) = Inr unique_tags_list"
      and "llm env (unify_prompt unique_tags_list) = Inr response"
      and "re_search response = None \<or>
           (\<exists>m. re_search response = Some m \<and>
                json_loads (recursion_left env) m = Inl JSONDecodeError)"
  shows "get_unified_tags env posts = Inr (JObject [])"
proof -
  from assms(4) have "extract_json (recursion_left env) response = Inr (JObject [])"
    by (auto simp: extract_json_def)
  with assms(1-3) show ?thesis
    by (simp add: get_unified_tags_def)
qed

theorem get_unified_tags_absorbs_parse_failure_witness:
  "get_unified_tags
     \<lparr>llm = \<lambda>prompt. Inr (str_of ''Sorry, I cannot do that.''),
      set_list = remdups, recursion_left = 1000\<rparr>
     [JObject [(str_of ''text'', JString (str_of ''hi'')),
               (str_of ''tags'', JArray [JString (str_of ''AI'')])]] = Inr (JObject [])"
proof -
  let ?env = "\<lparr>llm = \<lambda>prompt. Inr (str_of ''Sorry, I cannot do that.''),
               set_list = remdups, recursion_left = 1000\<rparr>"
  let ?posts = "[JObject [(str_of ''text'', JString (str_of ''hi'')),
                          (str_of ''tags'', JArray [JString (str_of ''AI'')])]]"
  have a: "collect_tags [] ?posts = Inr [JString (str_of ''AI'')]"
    by (simp add: str_of_def)
  have b: "join_tags (set_list ?env [JString (str_of ''AI'')]) = Inr (str_of ''AI'')"
    by (simp add: join_tags_def)
  have c: "llm ?env (unify_prompt (str_of ''AI'')) = Inr (str_of ''Sorry, I cannot do that.'')"
    by simp
  have d: "re_search (str_of ''Sorry, I cannot do that.'') = None"
    by (simp add: re_search_def str_of_def)
  from get_unified_tags_absorbs_parse_failure [OF a b c] d show ?thesis by blast
qed

subsection \<open>The tags field after the first loop\<close>

text \<open>What Python calls a sequence among the decoded values: a list or a string.\<close>

fun is_sequence :: "json \<Rightarrow> bool" where
  "is_sequence (JArray xs) = True"
| "is_sequence (JString s) = True"
| "is_sequence v = False"

lemma enrich_post_has_tags:
  assumes "enrich_post env post = Inr p"
  shows "\<exists>d. p = JObject d \<and> str_of ''tags'' \<in> dict_keys d"
  using assms
  by (auto simp: enrich_post_def Let_def dict_keys_dict_set
           split: json.splits sum.splits)

lemma enrich_posts_have_tags:
  "enrich_posts env posts = Inr enriched \<Longrightarrow>
     length enriched = length posts \<and>
     (\<forall>p \<in> set enriched. \<exists>d. p = JObject d \<and> str_of ''tags'' \<in> dict_keys d)"
proof (induction posts arbitrary: enriched)
  case Nil
  then show ?case by simp
next
  case (Cons post posts)
  from Cons.prems obtain p ps where
      p: "enrich_post env post = Inr p" and ps: "enrich_posts env posts = Inr ps"
      and e: "enriched = p # ps"
    by (auto split: sum.splits)
  from Cons.IH [OF ps] enrich_post_has_tags [OF p] e show ?case by auto
qed

lemma enrich_posts_returns:
  "(\<forall>post \<in> set posts. \<exists>p. enrich_post env post = Inr p) \<Longrightarrow>
     \<exists>enriched. enrich_posts env posts = Inr enriched"
  by (induction posts) auto

text \<open>
  Claim C9, as amended. After the first loop of \<open>process_posts\<close> every record of the
  enriched collection has a \<open>tags\<close> field, also when the extraction fell back or the
  metadata had no \<open>tags\<close> key. The field holds the metadata's value for \<open>tags\<close> when
  it has one, else the record's own, else the empty list; a value that the model or the
  input file supplied is kept as it is and need not be a sequence. The loop returns
  when every post is a dict whose text, if any, is a string and the extraction returns.
\<close>

theorem enrich_posts_tags:
  "(enrich_posts env posts = Inr enriched \<longrightarrow>
      length enriched = length posts \<and>
      (\<forall>p \<in> set enriched. \<exists>d. p = JObject d \<and> str_of ''tags'' \<in> dict_keys d))
   \<and> ((\<forall>post \<in> set posts. \<exists>d text metadata.
          post = JObject d \<and> dict_get d (str_of ''text'') (JString []) = JString text \<and>
          extract_metadata env (clean_text text) = Inr metadata)
        \<longrightarrow> (\<exists>enriched. enrich_posts env posts = Inr enriched))
   \<and> (\<forall>d text metadata.
          dict_get d (str_of ''text'') (JString []) = JString text \<and>
          extract_metadata env (clean_text text) = Inr metadata
          \<longrightarrow> (\<exists>md merged.
                 metadata = JObject md \<and>
                 enrich_post env (JObject d) = Inr (JObject merged) \<and>
                 map_of merged (str_of ''tags'') =
                   (if str_of ''tags'' \<in> dict_keys md then map_of md (str_of ''tags'')
                    else if str_of ''tags'' \<in> dict_keys d then map_of d (str_of ''tags'')
                    else Some (JArray []))))"
proof -
  have first: "enrich_posts env posts = Inr enriched \<longrightarrow>
      length enriched = length posts \<and>
      (\<forall>p \<in> set enriched. \<exists>d. p = JObject d \<and> str_of ''tags'' \<in> dict_keys d)"
    using enrich_posts_have_tags [of env posts enriched] by blast
  have second: "(\<forall>post \<in> set posts. \<exists>d text metadata.
          post = JObject d \<and> dict_get d (str_of ''text'') (JString []) = JString text \<and>
          extract_metadata env (clean_text text) = Inr metadata)
        \<longrightarrow> (\<exists>enriched. enrich_posts env posts = Inr enriched)"
  proof
    assume all: "\<forall>post \<in> set posts. \<exists>d text metadata.
          post = JObject d \<and> dict_get d (str_of ''text'') (JString []) = JString text \<and>
          extract_metadata env (clean_text text) = Inr metadata"
    have "\<forall>post \<in> set posts. \<exists>p. enrich_post env post = Inr p"
    proof
      fix post assume "post \<in> set posts"
      with all obtain d t metadata where
          "post = JObject d" "dict_get d (str_of ''text'') (JString []) = JString t"
          "extract_metadata env (clean_text t) = Inr metadata"
        by blast
      with enrich_post_lookup [of d t env metadata]
      show "\<exists>p. enrich_post env post = Inr p" by auto
    qed
    then show "\<exists>enriched. enrich_posts env posts = Inr enriched"
      by (rule enrich_posts_returns)
  qed
  have third: "\<forall>d text metadata.
          dict_get d (str_of ''text'') (JString []) = JString text \<and>
          extract_metadata env (clean_text text) = Inr metadata
          \<longrightarrow> (\<exists>md merged.
                 metadata = JObject md \<and>
                 enrich_post env (JObject d) = Inr (JObject merged) \<and>
                 map_of merged (str_of ''tags'') =
                   (if str_of ''tags'' \<in> dict_keys md then map_of md (str_of ''tags'')
                    else if str_of ''tags'' \<in> dict_keys d then map_of d (str_of ''tags'')
                    else Some (JArray [])))"
  proof (intro allI impI)
    fix d t metadata
    assume "dict_get d (str_of ''text'') (JString []) = JString t \<and>
            extract_metadata env (clean_text t) = Inr metadata"
    with enrich_post_lookup [of d t env metadata] obtain md merged where
        md: "metadata = JObject md" and run: "enrich_post env (JObject d) = Inr (JObject merged)"
        and look: "\<And>k. map_of merged k =
                (if k \<in> dict_keys md then map_of md k
                 else if k = str_of ''tags'' \<and> k \<notin> dict_keys d then Some (JArray [])
                 else map_of (dict_set (str_of ''text'') (JString (clean_text t)) d) k)"
      by blast
    have "map_of merged (str_of ''tags'') =
            (if str_of ''tags'' \<in> dict_keys md then map_of md (str_of ''tags'')
             else if str_of ''tags'' \<in> dict_keys d then map_of d (str_of ''tags'')
             else Some (JArray []))"
      unfolding look by (simp add: map_of_dict_set str_of_def)
    with md run show "\<exists>md merged.
                   metadata = JObject md \<and>
                   enrich_post env (JObject d) = Inr (JObject merged) \<and>
                   map_of merged (str_of ''tags'') =
                     (if str_of ''tags'' \<in> dict_keys md then map_of md (str_of ''tags'')
                      else if str_of ''tags'' \<in> dict_keys d then map_of d (str_of ''tags'')
                      else Some (JArray []))"
      by blast
  qed
  show ?thesis by (rule conjI [OF first conjI [OF second third]])
qed

theorem enrich_posts_tags_witness:
  "enrich_posts
     \<lparr>llm = \<lambda>prompt. Inr (str_of ''I cannot tell.''), set_list = remdups, recursion_left = 1000\<rparr>
     [JObject [(str_of ''text'', JString (str_of ''hi''))]] =
     Inr [JObject [(str_of ''text'', JString (str_of ''hi'')), (str_of ''tags'', JArray [])]]
   \<and> str_of ''tags'' \<in> dict_keys [(str_of ''text'', JString (str_of ''hi'')), (str_of ''tags'', JArray [])]"
proof -
  let ?env = "\<lparr>llm = \<lambda>prompt. Inr (str_of ''I cannot tell.''), set_list = remdups, recursion_left = 1000\<rparr>"
  have run: "enrich_posts ?env [JObject [(str_of ''text'', JString (str_of ''hi''))]] =
     Inr [JObject [(str_of ''text'', JString (str_of ''hi'')), (str_of ''tags'', JArray [])]]"
    by (simp add: program_eval decoder_eval)
  from enrich_posts_tags [of ?env "[JObject [(str_of ''text'', JString (str_of ''hi''))]]"
      "[JObject [(str_of ''text'', JString (str_of ''hi'')), (str_of ''tags'', JArray [])]]"] run
  have "\<forall>p \<in> set [JObject [(str_of ''text'', JString (str_of ''hi'')), (str_of ''tags'', JArray [])]].
          \<exists>d. p = JObject d \<and> str_of ''tags'' \<in> dict_keys d"
    by blast
  then have "str_of ''tags'' \<in> dict_keys [(str_of ''text'', JString (str_of ''hi'')), (str_of ''tags'', JArray [])]"
    by simp
  with run show ?thesis by blast
qed

text \<open>
  The claim as stated fails: when the model answers \<open>{"tags": 5}\<close>, the enriched
  record has the \<open>tags\<close> field 5, which is no sequence.
\<close>

theorem enrich_posts_tags_counterexample:
  \<open>enrich_posts
     \<lparr>llm = \<lambda>prompt. Inr (str_of ''{"tags": 5}''), set_list = remdups, recursion_left = 1000\<rparr>
     [JObject [(str_of ''text'', JString (str_of ''hi''))]] =
     Inr [JObject [(str_of ''text'', JString (str_of ''hi'')), (str_of ''tags'', JInt 5)]]
   \<and> \<not> is_sequence (JInt 5)\<close>
  by (simp add: program_eval decoder_eval)

subsection \<open>Rewriting the tags of a record\<close>

text \<open>What the second loop puts in the place of a tag.\<close>

definition unified_tag :: "(str \<times> json) list \<Rightarrow> json \<Rightarrow> json" where
  "unified_tag m tag = (case map_of m (str_val tag) of None \<Rightarrow> tag | Some v \<Rightarrow> v)"

lemma unified_get_str:
  "is_str tag \<Longrightarrow> unified_get (JObject m) tag = Inr (unified_tag m tag)"
  by (cases tag) (simp_all add: unified_get_def unified_tag_def dict_get_def)

lemma new_tags_Inr:
  assumes "list_all is_str tags"
      and "list_all (\<lambda>t. hashable (unified_tag m t)) tags"
  shows "new_tags (JObject m) tags = Inr (map (unified_tag m) tags)"
  using assms by (induction tags) (simp_all add: unified_get_str)

lemma new_tags_values:
  assumes "list_all is_str tags"
      and "new_tags (JObject m) tags = Inr vs"
  shows "vs = map (unified_tag m) tags"
  using assms
proof (induction tags arbitrary: vs)
  case Nil
  then show ?case by simp
next
  case (Cons t tags)
  then show ?case
    by (auto simp: unified_get_str split: if_splits sum.splits)
qed

lemma is_str_hashable: "is_str v \<Longrightarrow> hashable v"
  by (cases v) simp_all

lemma unified_tag_is_str:
  assumes "is_str t" and "list_all (\<lambda>kv. is_str (snd kv)) m"
  shows "is_str (unified_tag m t)"
proof (cases "map_of m (str_val t)")
  case None
  with assms(1) show ?thesis by (simp add: unified_tag_def)
next
  case (Some v)
  then have "(str_val t, v) \<in> set m" by (rule map_of_SomeD)
  with assms(2) have "is_str v" by (auto simp: list_all_iff)
  with Some show ?thesis by (simp add: unified_tag_def)
qed

lemma retag_post_strings:
  assumes order: "set_order (set_list env)"
      and tags: "map_of d (str_of ''tags'') = Some (JArray tags)"
      and strs: "list_all is_str tags"
      and vals: "list_all (\<lambda>kv. is_str (snd kv)) m"
  shows "\<exists>out. retag_post env (JObject m) (JObject d) =
                 Inr (JObject (dict_set (str_of ''tags'') (JArray out) d)) \<and>
               distinct out \<and> set out = unified_tag m ` set tags"
proof -
  have mapped: "list_all is_str (map (unified_tag m) tags)"
    using strs vals by (auto simp: list_all_iff intro: unified_tag_is_str)
  then have "list_all (\<lambda>t. hashable (unified_tag m t)) tags"
    by (auto simp: list_all_iff intro: is_str_hashable)
  from new_tags_Inr [OF strs this]
  have run: "retag_post env (JObject m) (JObject d) =
             Inr (JObject (dict_set (str_of ''tags'')
                    (JArray (set_list env (map (unified_tag m) tags))) d))"
    using tags by (simp add: retag_post_def)
  from order mapped have "distinct (set_list env (map (unified_tag m) tags)) \<and>
      set (set_list env (map (unified_tag m) tags)) = set (map (unified_tag m) tags)"
    unfolding set_order_def by blast
  with run show ?thesis by auto
qed

lemma set_order_remdups: "set_order remdups"
  by (simp add: set_order_def)






subsection \<open>No empty tag\<close>

lemma retag_post_Inr:
  assumes "retag_post env (JObject m) (JObject d) = Inr p"
      and "map_of d (str_of ''tags'') = Some (JArray tags)"
      and "list_all is_str tags"
  shows "p = JObject (dict_set (str_of ''tags'')
                (JArray (set_list env (map (unified_tag m) tags))) d)"
proof -
  from assms(1,2) obtain vs where vs: "new_tags (JObject m) tags = Inr vs"
      and p: "p = JObject (dict_set (str_of ''tags'') (JArray (set_list env vs)) d)"
    by (auto simp: retag_post_def split: sum.splits)
  from new_tags_values [OF assms(3) vs] p show ?thesis by simp
qed

text \<open>
  Claim C5, as amended. For every record whose tags are all non-empty strings and every
  tag mapping that sends none of these tags to the empty string, rewriting the record's
  tags through the mapping, with a tag that is no key left as it is, produces no empty
  tag. (A mapping may send a tag to the empty string, and then the record gets it.) The
  rewriting returns when the mapping's values are strings.
\<close>

theorem retag_post_no_empty_tag:
  assumes "set_order (set_list env)"
      and "map_of d (str_of ''tags'') = Some (JArray tags)"
      and "list_all is_str tags"
      and "JString [] \<notin> set tags"
      and "\<forall>t \<in> set tags. map_of m (str_val t) \<noteq> Some (JString [])"
  shows "(\<forall>p. retag_post env (JObject m) (JObject d) = Inr p
            \<longrightarrow> (\<exists>out. p = JObject (dict_set (str_of ''tags'') (JArray out) d) \<and>
                       JString [] \<notin> set out))
         \<and> (list_all (\<lambda>kv. is_str (snd kv)) m
            \<longrightarrow> (\<exists>p. retag_post env (JObject m) (JObject d) = Inr p))"
proof -
  have no_empty: "JString [] \<notin> set (map (unified_tag m) tags)"
  proof
    assume "JString [] \<in> set (map (unified_tag m) tags)"
    then obtain t where t: "t \<in> set tags" "unified_tag m t = JString []" by auto
    with assms(4,5) show False
      by (cases "map_of m (str_val t)") (auto simp: unified_tag_def)
  qed
  from assms(1) have "set (set_list env (map (unified_tag m) tags)) \<subseteq> set (map (unified_tag m) tags)"
    unfolding set_order_def by blast
  with no_empty have out: "JString [] \<notin> set (set_list env (map (unified_tag m) tags))"
    by blast
  have first: "\<forall>p. retag_post env (JObject m) (JObject d) = Inr p
            \<longrightarrow> (\<exists>out. p = JObject (dict_set (str_of ''tags'') (JArray out) d) \<and>
                       JString [] \<notin> set out)"
    using retag_post_Inr [OF _ assms(2,3)] out by blast
  have second: "list_all (\<lambda>kv. is_str (snd kv)) m
            \<longrightarrow> (\<exists>p. retag_post env (JObject m) (JObject d) = Inr p)"
    using retag_post_strings [OF assms(1,2,3)] by blast
  show ?thesis by (rule conjI [OF first second])
qed

theorem retag_post_no_empty_tag_witness:
  "retag_post stub_env
     (JObject [(str_of ''Job Search'', JString (str_of ''Job Search'')),
               (str_of ''Hiring'', JString (str_of ''Job Search''))])
     (JObject [(str_of ''tags'', JArray [JString (str_of ''Hiring''), JString (str_of ''AI'')])]) =
     Inr (JObject [(str_of ''tags'', JArray [JString (str_of ''Job Search''), JString (str_of ''AI'')])])
   \<and> JString [] \<notin> set [JString (str_of ''Job Search''), JString (str_of ''AI'')]"
proof -
  let ?m = "[(str_of ''Job Search'', JString (str_of ''Job Search'')),
             (str_of ''Hiring'', JString (str_of ''Job Search''))]"
  let ?d = "[(str_of ''tags'', JArray [JString (str_of ''Hiring''), JString (str_of ''AI'')])]"
  let ?tags = "[JString (str_of ''Hiring''), JString (str_of ''AI'')]"
  have order: "set_order (set_list stub_env)"
    by (simp add: stub_env_def set_order_remdups)
  have tags: "map_of ?d (str_of ''tags'') = Some (JArray ?tags)" by simp
  have strs: "list_all is_str ?tags" by simp
  have nonempty: "JString [] \<notin> set ?tags" by (simp add: str_of_def)
  have sends: "\<forall>t \<in> set ?tags. map_of ?m (str_val t) \<noteq> Some (JString [])"
    by (simp add: str_of_def)
  have run: "retag_post stub_env (JObject ?m) (JObject ?d) =
     Inr (JObject [(str_of ''tags'', JArray [JString (str_of ''Job Search''), JString (str_of ''AI'')])])"
    by (simp add: stub_env_def program_eval str_of_def)
  from retag_post_no_empty_tag [OF order tags strs nonempty sends] run
  obtain out where
      "JObject [(str_of ''tags'', JArray [JString (str_of ''Job Search''), JString (str_of ''AI'')])] =
       JObject (dict_set (str_of ''tags'') (JArray out) ?d)"
      "JString [] \<notin> set out"
    by blast
  then have "JString [] \<notin> set [JString (str_of ''Job Search''), JString (str_of ''AI'')]"
    by simp
  with run show ?thesis by blast
qed

text \<open>
  The claim as stated fails: under the mapping \<open>{"Hiring": ""}\<close> the record with the
  tags \<open>["Hiring"]\<close> ends with the tags \<open>[""]\<close>.
\<close>

theorem retag_post_empty_tag_counterexample:
  "retag_post stub_env
     (JObject [(str_of ''Hiring'', JString [])])
     (JObject [(str_of ''tags'', JArray [JString (str_of ''Hiring'')])]) =
     Inr (JObject [(str_of ''tags'', JArray [JString []])])
   \<and> JString (str_of ''Hiring'') \<noteq> JString []"
  by (simp add: stub_env_def program_eval str_of_def)

end
